theory Spec2Isabelle
  imports Main
begin

section \<open>Library functions used by main.go\<close>

text \<open>
  Go strings and byte slices are sequences of bytes; they are modelled as \<open>string\<close>
  (a list of 8-bit characters). \<open>string(content)\<close> and \<open>[]byte(s)\<close> are the identity.
\<close>

type_synonym path = string

definition LF :: char where
  "LF = CHR 0x0A"

text \<open>
  \<^verbatim>\<open>strings.HasPrefix(s, prefix)\<close> is
  \<^verbatim>\<open>len(s) >= len(prefix) && s[:len(prefix)] == prefix\<close>.
\<close>

definition HasPrefix :: "string \<Rightarrow> string \<Rightarrow> bool" where
  "HasPrefix s pfx = (length s \<ge> length pfx \<and> take (length pfx) s = pfx)"

text \<open>
  \<^verbatim>\<open>strings.TrimPrefix(s, prefix)\<close> returns \<^verbatim>\<open>s[len(prefix):]\<close> when
  \<open>s\<close> has the prefix and \<open>s\<close> itself otherwise.
\<close>

definition TrimPrefix :: "string \<Rightarrow> string \<Rightarrow> string" where
  "TrimPrefix s pfx = (if HasPrefix s pfx then drop (length pfx) s else s)"

text \<open>
  \<^verbatim>\<open>strings.HasSuffix(s, suffix)\<close> is
  \<^verbatim>\<open>len(s) >= len(suffix) && s[len(s)-len(suffix):] == suffix\<close>. The program does
  not call it; it states what "the base name ends in .txt" means.
\<close>

definition HasSuffix :: "string \<Rightarrow> string \<Rightarrow> bool" where
  "HasSuffix s suf = (length s \<ge> length suf \<and> drop (length s - length suf) s = suf)"

subsection \<open>Errors\<close>

text \<open>
  Go's \<open>error\<close> values, as far as the program makes or meets them: the
  \<^verbatim>\<open>*os.PathError\<close> of a failed system call (operation, path, message), the
  \<^verbatim>\<open>filepath.ErrBadPattern\<close> of a malformed glob, \<^verbatim>\<open>fmt.Errorf\<close> of a constant
  text, and \<^verbatim>\<open>errors.Wrap(err, msg)\<close>. A \<open>nil\<close> error is \<open>None\<close> of
  \<open>error option\<close>.
\<close>

datatype error =
    PathError string path string
  | ErrBadPattern
  | Errorf string
  | Wrap error string

fun Error_text :: "error \<Rightarrow> string" where
  "Error_text (PathError oper p msg) = oper @ '' '' @ p @ '': '' @ msg"
| "Error_text ErrBadPattern = ''syntax error in pattern''"
| "Error_text (Errorf msg) = msg"
| "Error_text (Wrap err msg) = msg @ '': '' @ Error_text err"

subsection \<open>Paths and glob patterns (package path/filepath, Unix)\<close>

text \<open>
  \<^verbatim>\<open>filepath.Base(path)\<close>: the last element of the path; trailing separators are
  dropped first; the empty path gives \<open>.\<close> and a path of separators only gives \<open>/\<close>.
\<close>

definition Base :: "path \<Rightarrow> string" where
  "Base p =
     (if p = [] then ''.''
      else
        let q = rev (dropWhile (\<lambda>c. c = CHR ''/'') (rev p));
            b = rev (takeWhile (\<lambda>c. c \<noteq> CHR ''/'') (rev q))
        in if b = [] then ''/'' else b)"

text \<open>
  \<^verbatim>\<open>utf8.DecodeRuneInString(s)\<close>: the first code point of \<open>s\<close> and its width in
  bytes; \<open>(RuneError, 0)\<close> for the empty string and \<open>(RuneError, 1)\<close> for an invalid
  encoding. The masks and shifts of the source are written as \<open>mod\<close> and products.
\<close>

definition RuneError :: nat where
  "RuneError = 0xFFFD"

definition DecodeRuneInString :: "string \<Rightarrow> nat \<times> nat" where
  "DecodeRuneInString s =
     (case s of
        [] \<Rightarrow> (RuneError, 0)
      | c0 # t \<Rightarrow>
          let s0 = (of_char c0 :: nat) in
          if s0 < 0x80 then (s0, 1)
          else if s0 < 0xC2 \<or> 0xF4 < s0 then (RuneError, 1)
          else
            let sz = (if s0 < 0xE0 then 2 else if s0 < 0xF0 then 3 else (4::nat));
                lo = (if s0 = 0xE0 then 0xA0 else if s0 = 0xF0 then 0x90 else (0x80::nat));
                hi = (if s0 = 0xED then 0x9F else if s0 = 0xF4 then 0x8F else (0xBF::nat))
            in
              if length s < sz then (RuneError, 1)
              else
                let s1 = (of_char (s ! 1) :: nat) in
                if s1 < lo \<or> hi < s1 then (RuneError, 1)
                else if sz \<le> 2 then ((s0 mod 32) * 64 + s1 mod 64, 2)
                else
                  let s2 = (of_char (s ! 2) :: nat) in
                  if s2 < 0x80 \<or> 0xBF < s2 then (RuneError, 1)
                  else if sz \<le> 3 then ((s0 mod 16) * 4096 + (s1 mod 64) * 64 + s2 mod 64, 3)
                  else
                    let s3 = (of_char (s ! 3) :: nat) in
                    if s3 < 0x80 \<or> 0xBF < s3 then (RuneError, 1)
                    else ((s0 mod 8) * 262144 + (s1 mod 64) * 4096 + (s2 mod 64) * 64
                            + s3 mod 64, 4))"

definition backslash :: char where
  "backslash = CHR 0x5C"

text \<open>
  \<^verbatim>\<open>getEsc(chunk)\<close> reads one, possibly escaped, character of a character class
  and returns it with the rest of the chunk. Every path that sets \<open>err\<close> is \<open>Inl\<close>:
  the callers return at once on an error.
\<close>

definition getEsc :: "string \<Rightarrow> error + (nat \<times> string)" where
  "getEsc chunk =
     (case chunk of
        [] \<Rightarrow> Inl ErrBadPattern
      | c # cs \<Rightarrow>
          if c = CHR ''-'' \<or> c = CHR '']'' then Inl ErrBadPattern
          else
            let chunk1 = (if c = backslash then cs else chunk) in
            if chunk1 = [] then Inl ErrBadPattern
            else
              let (r, n) = DecodeRuneInString chunk1;
                  nchunk = drop n chunk1
              in if (r = RuneError \<and> n = 1) \<or> nchunk = [] then Inl ErrBadPattern
                 else Inr (r, nchunk))"

lemma DecodeRuneInString_width: "s \<noteq> [] \<Longrightarrow> 0 < snd (DecodeRuneInString s)"
  by (cases s) (simp_all add: DecodeRuneInString_def Let_def)

lemma getEsc_shorter: "getEsc chunk = Inr (r, nchunk) \<Longrightarrow> length nchunk < length chunk"
proof (cases chunk)
  case Nil
  assume "getEsc chunk = Inr (r, nchunk)"
  with Nil show ?thesis by (simp add: getEsc_def)
next
  case (Cons c cs)
  assume a: "getEsc chunk = Inr (r, nchunk)"
  define chunk1 where "chunk1 = (if c = backslash then cs else chunk)"
  have ne: "chunk1 \<noteq> []"
    using a Cons by (auto simp: getEsc_def chunk1_def Let_def split: if_splits)
  have nc: "nchunk = drop (snd (DecodeRuneInString chunk1)) chunk1"
    using a Cons
    by (auto simp: getEsc_def chunk1_def Let_def split: if_splits prod.splits)
  have "length nchunk < length chunk1"
    using DecodeRuneInString_width [OF ne] ne by (simp add: nc)
  moreover have "length chunk1 \<le> length chunk"
    using Cons by (simp add: chunk1_def)
  ultimately show ?thesis by simp
qed

text \<open>
  The loop of \<^verbatim>\<open>matchChunk\<close> that parses the ranges of a character class, from
  behind the \<open>[\<close> (and \<open>^\<close>) to the closing \<open>]\<close>: \<open>r\<close> is the character of the
  name, \<open>nrange\<close> the number of ranges read, \<open>match\<close> whether one of them held \<open>r\<close>.
  It returns the chunk behind the class and \<open>match\<close>.
\<close>

function classLoop :: "string \<Rightarrow> nat \<Rightarrow> nat \<Rightarrow> bool \<Rightarrow> error + (string \<times> bool)" where
  "classLoop chunk r nrange match =
     (if chunk \<noteq> [] \<and> hd chunk = CHR '']'' \<and> nrange > 0 then Inr (tl chunk, match)
      else
        case getEsc chunk of
          Inl err \<Rightarrow> Inl err
        | Inr (lo, chunk1) \<Rightarrow>
            if hd chunk1 = CHR ''-'' then
              (case getEsc (tl chunk1) of
                 Inl err \<Rightarrow> Inl err
               | Inr (hi, chunk2) \<Rightarrow>
                   classLoop chunk2 r (nrange + 1) (match \<or> (lo \<le> r \<and> r \<le> hi)))
            else classLoop chunk1 r (nrange + 1) (match \<or> (lo \<le> r \<and> r \<le> lo)))"
  by pat_completeness auto
termination
proof (relation "measure (\<lambda>(chunk, r, nrange, match). length chunk)")
  show "wf (measure (\<lambda>(chunk, r, nrange, match). length chunk))" by simp
next
  fix chunk :: string and r nrange :: nat and match :: bool and x2 lo chunk1 x2a hi chunk2
  assume "getEsc chunk = Inr x2" "(lo, chunk1) = x2"
    and "getEsc (tl chunk1) = Inr x2a" "(hi, chunk2) = x2a"
  then have "length chunk1 < length chunk" "length chunk2 < length (tl chunk1)"
    using getEsc_shorter by metis+
  then show "((chunk2, r, nrange + 1, match \<or> lo \<le> r \<and> r \<le> hi), chunk, r, nrange, match)
        \<in> measure (\<lambda>(chunk, r, nrange, match). length chunk)"
    by simp
next
  fix chunk :: string and r nrange :: nat and match :: bool and x2 lo chunk1
  assume "getEsc chunk = Inr x2" "(lo, chunk1) = x2"
  then have "length chunk1 < length chunk"
    using getEsc_shorter by metis
  then show "((chunk1, r, nrange + 1, match \<or> lo \<le> r \<and> r \<le> lo), chunk, r, nrange, match)
        \<in> measure (\<lambda>(chunk, r, nrange, match). length chunk)"
    by simp
qed

declare classLoop.simps [simp del]

lemma classLoop_shorter:
  "classLoop chunk r nrange match = Inr (chunk', m) \<Longrightarrow> length chunk' \<le> length chunk"
proof (induction chunk r nrange match rule: classLoop.induct)
  case (1 chunk r nrange match)
  note eq = "1.prems" [unfolded classLoop.simps [of chunk r nrange match]]
  show ?case
  proof (cases "chunk \<noteq> [] \<and> hd chunk = CHR '']'' \<and> nrange > 0")
    case True
    with eq show ?thesis by auto
  next
    case False
    then obtain lo chunk1 where g1: "getEsc chunk = Inr (lo, chunk1)"
      using eq by (cases "getEsc chunk") auto
    have l1: "length chunk1 < length chunk" using getEsc_shorter [OF g1] .
    show ?thesis
    proof (cases "hd chunk1 = CHR ''-''")
      case dash: True
      then obtain hi chunk2 where g2: "getEsc (tl chunk1) = Inr (hi, chunk2)"
        using eq False g1 by (cases "getEsc (tl chunk1)") auto
      have "classLoop chunk2 r (nrange + 1) (match \<or> (lo \<le> r \<and> r \<le> hi)) = Inr (chunk', m)"
        using eq False g1 g2 dash by simp
      then have "length chunk' \<le> length chunk2"
        using "1.IH"(1) [OF False g1 refl dash g2 refl] by simp
      moreover have "length chunk2 < length (tl chunk1)" using getEsc_shorter [OF g2] .
      ultimately show ?thesis using l1 by simp
    next
      case nodash: False
      have "classLoop chunk1 r (nrange + 1) (match \<or> (lo \<le> r \<and> r \<le> lo)) = Inr (chunk', m)"
        using eq False g1 nodash by simp
      then have "length chunk' \<le> length chunk1"
        using "1.IH"(2) [OF False g1 refl nodash] by simp
      then show ?thesis using l1 by simp
    qed
  qed
qed

text \<open>
  \<^verbatim>\<open>matchChunk(chunk, s)\<close> checks whether the chunk (literals, character classes
  and \<open>?\<close>) matches the beginning of \<open>s\<close>. The result \<open>(rest, ok, err)\<close> of the source is
  \<open>Inl err\<close> for an error, \<open>Inr None\<close> for no match and \<open>Inr (Some rest)\<close> for a match.
  After a failed match the loop goes on over the chunk to find syntax errors
  (\<open>failed\<close>), no longer reading \<open>s\<close>.
\<close>

function matchChunk_loop :: "string \<Rightarrow> string \<Rightarrow> bool \<Rightarrow> error + string option" where
  "matchChunk_loop [] s failed = (if failed then Inr None else Inr (Some s))"
| "matchChunk_loop (c # cs) s failed0 =
     (let failed = (failed0 \<or> s = []) in
      if c = CHR ''['' then
        let (r, s1) = (if \<not> failed
                       then (fst (DecodeRuneInString s), drop (snd (DecodeRuneInString s)) s)
                       else (0, s));
            negated = (cs \<noteq> [] \<and> hd cs = CHR ''^'');
            chunk = (if negated then tl cs else cs)
        in (case classLoop chunk r 0 False of
              Inl err \<Rightarrow> Inl err
            | Inr (chunk1, match) \<Rightarrow> matchChunk_loop chunk1 s1 (failed \<or> match = negated))
      else if c = CHR ''?'' then
        (if \<not> failed
         then matchChunk_loop cs (drop (snd (DecodeRuneInString s)) s) (hd s = CHR ''/'')
         else matchChunk_loop cs s failed)
      else if c = backslash then
        (case cs of
           [] \<Rightarrow> Inl ErrBadPattern
         | d # ds \<Rightarrow>
             if \<not> failed then matchChunk_loop ds (tl s) (d \<noteq> hd s)
             else matchChunk_loop ds s failed)
      else
        (if \<not> failed then matchChunk_loop cs (tl s) (c \<noteq> hd s)
         else matchChunk_loop cs s failed))"
  by pat_completeness auto
termination
  by (relation "measure (\<lambda>(chunk, s, failed). length chunk)")
     (auto dest!: classLoop_shorter split: if_splits)

definition matchChunk :: "string \<Rightarrow> string \<Rightarrow> error + string option" where
  "matchChunk chunk s = matchChunk_loop chunk s False"

text \<open>
  \<^verbatim>\<open>scanChunk(pattern)\<close> splits off the next chunk: leading stars are dropped
  (\<open>star\<close> tells whether there was one), and the chunk runs to the next star outside
  a character class. \<open>scanLoop\<close> is the index the scanning loop stops at.
\<close>

fun scanLoop :: "bool \<Rightarrow> string \<Rightarrow> nat" where
  "scanLoop inrange [] = 0"
| "scanLoop inrange (c # cs) =
     (if c = backslash then
        (case cs of [] \<Rightarrow> 1 | d # ds \<Rightarrow> 2 + scanLoop inrange ds)
      else if c = CHR ''['' then 1 + scanLoop True cs
      else if c = CHR '']'' then 1 + scanLoop False cs
      else if c = CHR ''*'' then (if \<not> inrange then 0 else 1 + scanLoop inrange cs)
      else 1 + scanLoop inrange cs)"

definition scanChunk :: "string \<Rightarrow> bool \<times> string \<times> string" where
  "scanChunk pat0 =
     (let star = (pat0 \<noteq> [] \<and> hd pat0 = CHR ''*'');
          pat1 = dropWhile (\<lambda>c. c = CHR ''*'') pat0;
          i = scanLoop False pat1
      in (star, take i pat1, drop i pat1))"

text \<open>
  The loop of \<^verbatim>\<open>Match\<close> after a star: it tries the chunk behind each skipped
  character of the name, never skipping a separator. \<open>lastChunk\<close> says that the
  pattern is exhausted, so that the chunk must match to the end of the name.
  \<open>Inr (Some t)\<close> is \<^verbatim>\<open>continue Pattern\<close> with \<open>name = t\<close>; \<open>Inr None\<close> is the
  end of the loop.
\<close>

fun starLoop :: "string \<Rightarrow> bool \<Rightarrow> string \<Rightarrow> error + string option" where
  "starLoop chunk lastChunk [] = Inr None"
| "starLoop chunk lastChunk (c # cs) =
     (if c = CHR ''/'' then Inr None
      else
        case matchChunk chunk cs of
          Inr (Some t) \<Rightarrow>
            if lastChunk \<and> t \<noteq> [] then starLoop chunk lastChunk cs else Inr (Some t)
        | Inl err \<Rightarrow> Inl err
        | Inr None \<Rightarrow> starLoop chunk lastChunk cs)"

lemma scanLoop_pos: "p \<noteq> [] \<Longrightarrow> hd p \<noteq> CHR ''*'' \<Longrightarrow> 0 < scanLoop inrange p"
  by (cases p) (auto split: list.splits)

lemma scanChunk_shorter:
  assumes "(star, chunk, rest) = scanChunk pat0" and "pat0 \<noteq> []"
  shows "length rest < length pat0"
proof -
  define pat1 where "pat1 = dropWhile (\<lambda>c. c = CHR ''*'') pat0"
  have rest: "rest = drop (scanLoop False pat1) pat1"
    using assms(1) by (simp add: scanChunk_def Let_def pat1_def)
  have le: "length pat1 \<le> length pat0"
    by (simp add: pat1_def length_dropWhile_le)
  show ?thesis
  proof (cases "pat1 = []")
    case True
    with rest assms(2) show ?thesis by simp
  next
    case False
    then have "hd pat1 \<noteq> CHR ''*''"
      using hd_dropWhile [of "\<lambda>c. c = CHR ''*''" pat0] by (simp add: pat1_def)
    then have "0 < scanLoop False pat1" using False by (rule scanLoop_pos [rotated])
    then have "length rest < length pat1" using False by (simp add: rest)
    with le show ?thesis by simp
  qed
qed

text \<open>
  \<^verbatim>\<open>filepath.Match(pattern, name)\<close> reports whether the whole name matches the
  shell pattern: \<open>*\<close> matches any sequence of non-separator characters, \<open>?\<close> one
  non-separator character, \<open>[...]\<close> a character class, \<open>\\c\<close> the character \<open>c\<close>.
  The result is \<open>(matched, err)\<close>. When no match is found, the rest of the pattern
  is not looked at: a syntax error there is not reported.
\<close>

function Match :: "string \<Rightarrow> string \<Rightarrow> bool \<times> error option" where
  "Match pat0 name =
     (if pat0 = [] then (name = [], None)
      else
        (case scanChunk pat0 of
           (star, chunk, rest) \<Rightarrow>
             if star \<and> chunk = [] then (CHR ''/'' \<notin> set name, None)
             else
               (case matchChunk chunk name of
                  Inl err \<Rightarrow> (False, Some err)
                | Inr found \<Rightarrow>
                    if found \<noteq> None \<and> (the found = [] \<or> rest \<noteq> [])
                    then Match rest (the found)
                    else if star then
                      (case starLoop chunk (rest = []) name of
                         Inl err \<Rightarrow> (False, Some err)
                       | Inr None \<Rightarrow> (False, None)
                       | Inr (Some t) \<Rightarrow> Match rest t)
                    else (False, None))))"
  by pat_completeness auto
termination
  by (relation "measure (\<lambda>(pat0, name). length pat0)")
     (auto dest: scanChunk_shorter)

declare Match.simps [simp del]

subsection \<open>The file system and the console\<close>

text \<open>
  A file as \<^verbatim>\<open>os.ReadFile\<close> and \<^verbatim>\<open>os.WriteFile\<close> see it: its bytes, and whether
  this process may open it for reading and for writing.
\<close>

record file_rec =
  data :: string
  readable :: bool
  writable :: bool

text \<open>
  The directory tree below a root as \<^verbatim>\<open>filepath.Walk\<close> presents it to its callback.
  Every node carries the path the callback receives (the root joined with the names on
  the way down): a non-directory entry, a directory with its entries in the order of
  the walk, a directory whose listing fails, and an entry whose \<open>Lstat\<close> fails.
\<close>

datatype node =
    Leaf path
  | Dir path "node list"
  | BadDir path error
  | NoStat path error

text \<open>Every call of \<^verbatim>\<open>os.ReadFile\<close> and \<^verbatim>\<open>os.WriteFile\<close>, in the order made.\<close>

datatype io_event = ReadEv path | WriteEv path string

text \<open>The paths passed to \<^verbatim>\<open>os.ReadFile\<close>, in the order of the calls.\<close>

fun reads :: "io_event list \<Rightarrow> path list" where
  "reads [] = []"
| "reads (ReadEv p # t) = p # reads t"
| "reads (WriteEv p d # t) = reads t"

text \<open>
  The world the program runs in. Several paths can name one file: \<open>target p\<close> is the
  name under which the file that \<open>open\<close> reaches from \<open>p\<close> is kept, that is \<open>p\<close> itself
  for an ordinary name, the path a symbolic link resolves to, and one fixed name
  among the hard links to a file. \<open>store\<close> holds the files under these names;
  \<^verbatim>\<open>os.ReadFile\<close> and \<^verbatim>\<open>os.WriteFile\<close> follow links, so they work on
  \<open>store (target p)\<close>. \<open>tree\<close> is what \<open>Lstat\<close> and the directory listings show below
  each root (\<open>Lstat\<close> does not follow links: a symbolic link is a non-directory entry
  under its own name). \<open>trace\<close> is the log of file reads and writes, \<open>out\<close> the standard
  output as the list of the texts printed (one per \<^verbatim>\<open>fmt.Println\<close>, without its
  final line break).
\<close>

record world =
  store :: "path \<Rightarrow> file_rec option"
  target :: "path \<Rightarrow> path"
  tree :: "path \<Rightarrow> node"
  trace :: "io_event list"
  out :: "string list"

text \<open>
  \<^verbatim>\<open>os.ReadFile(path)\<close>: the whole content, or the error of the failed \<open>open\<close>.
\<close>

definition ReadFile :: "world \<Rightarrow> path \<Rightarrow> world \<times> (error + string)" where
  "ReadFile w p =
     (let w' = w\<lparr>trace := trace w @ [ReadEv p]\<rparr> in
      case store w (target w p) of
        None \<Rightarrow> (w', Inl (PathError ''open'' p ''no such file or directory''))
      | Some f \<Rightarrow>
          if readable f then (w', Inr (data f))
          else (w', Inl (PathError ''open'' p ''permission denied'')))"

text \<open>
  \<^verbatim>\<open>os.WriteFile(path, data, os.ModeType)\<close> opens with
  \<^verbatim>\<open>O_WRONLY|O_CREATE|O_TRUNC\<close> and writes the data in one call. An existing file
  keeps its permissions and gets the new content; a failed \<open>open\<close> leaves it as it
  was. A missing file is created with the permission bits of \<^verbatim>\<open>os.ModeType\<close>, which
  are all zero. (The program writes only after it has read the same path.) The file
  written is the one the path names, so a write through a link changes the file
  for every path that names it. A write that fails half-way is not modelled.
\<close>

definition WriteFile :: "world \<Rightarrow> path \<Rightarrow> string \<Rightarrow> world \<times> error option" where
  "WriteFile w p newData =
     (let w' = w\<lparr>trace := trace w @ [WriteEv p newData]\<rparr> in
      case store w (target w p) of
        None \<Rightarrow>
          (w'\<lparr>store := (store w)(target w p \<mapsto>
                          \<lparr>data = newData, readable = False, writable = False\<rparr>)\<rparr>,
           None)
      | Some f \<Rightarrow>
          if writable f
          then (w'\<lparr>store := (store w)(target w p \<mapsto> f\<lparr>data := newData\<rparr>)\<rparr>, None)
          else (w', Some (PathError ''open'' p ''permission denied'')))"

text \<open>
  What the callback of \<^verbatim>\<open>filepath.Walk\<close> learns from an \<^verbatim>\<open>os.FileInfo\<close>: the
  program only asks \<^verbatim>\<open>info.IsDir()\<close>.
\<close>

datatype FileInfo = FileInfo (IsDir: bool)

text \<open>
  \<^verbatim>\<open>filepath.Walk(root, fn)\<close> over the tree found at the root. The callback gets
  the path, the file information (\<open>nil\<close> when \<open>Lstat\<close> failed) and the error met at
  that entry, and returns an error to stop the walk. The variables a Go closure
  captures are the state \<open>'s\<close> the callback passes on. A directory is announced
  before its entries; a directory that cannot be listed is announced with the error,
  and the walk returns what the callback returns. The callback of this program never
  returns \<^verbatim>\<open>filepath.SkipDir\<close>, so skipping is not modelled.
\<close>

type_synonym 's WalkFunc = "path \<Rightarrow> FileInfo option \<Rightarrow> error option \<Rightarrow> 's \<Rightarrow> 's \<times> error option"

fun Walk :: "node \<Rightarrow> 's WalkFunc \<Rightarrow> 's \<Rightarrow> 's \<times> error option"
  and Walk_entries :: "node list \<Rightarrow> 's WalkFunc \<Rightarrow> 's \<Rightarrow> 's \<times> error option" where
  "Walk (Leaf p) fn s = fn p (Some (FileInfo False)) None s"
| "Walk (Dir p ns) fn s =
     (case fn p (Some (FileInfo True)) None s of
        (s1, Some err) \<Rightarrow> (s1, Some err)
      | (s1, None) \<Rightarrow> Walk_entries ns fn s1)"
| "Walk (BadDir p e) fn s = fn p (Some (FileInfo True)) (Some e) s"
| "Walk (NoStat p e) fn s = fn p None (Some e) s"
| "Walk_entries [] fn s = (s, None)"
| "Walk_entries (n # ns) fn s =
     (case Walk n fn s of
        (s1, Some err) \<Rightarrow> (s1, Some err)
      | (s1, None) \<Rightarrow> Walk_entries ns fn s1)"

text \<open>
  The paths of the non-directory entries of a tree, in the order of the walk. (An
  entry whose \<open>Lstat\<close> fails is of no known kind and is not listed.)
\<close>

fun leaves :: "node \<Rightarrow> path list" where
  "leaves (Leaf p) = [p]"
| "leaves (Dir p ns) = concat (map leaves ns)"
| "leaves (BadDir p e) = []"
| "leaves (NoStat p e) = []"

definition Println :: "world \<Rightarrow> string \<Rightarrow> world" where
  "Println w s = w\<lparr>out := out w @ [s]\<rparr>"

section \<open>The prefix mutator\<close>

text \<open>
  \<^verbatim>\<open>func injectPrefix(path string, prefix string, lineEnd bool) (bool, error)\<close>
\<close>

definition injectPrefix :: "world \<Rightarrow> path \<Rightarrow> string \<Rightarrow> bool \<Rightarrow> world \<times> bool \<times> error option" where
  "injectPrefix w p pfx lineEnd =
     (case ReadFile w p of
        (w1, Inl err) \<Rightarrow> (w1, False, Some err)
      | (w1, Inr content) \<Rightarrow>
          if HasPrefix content pfx then (w1, False, None)
          else
            let newContent = pfx;
                newContent = (if lineEnd then newContent @ [LF] else newContent);
                newContent = newContent @ content
            in (case WriteFile w1 p newContent of
                  (w2, Some err) \<Rightarrow> (w2, False, Some err)
                | (w2, None) \<Rightarrow> (w2, True, None)))"

text \<open>
  \<^verbatim>\<open>func removePrefix(path string, prefix string, lineEnd bool) (bool, error)\<close>
\<close>

definition removePrefix :: "world \<Rightarrow> path \<Rightarrow> string \<Rightarrow> bool \<Rightarrow> world \<times> bool \<times> error option" where
  "removePrefix w p pfx lineEnd =
     (case ReadFile w p of
        (w1, Inl err) \<Rightarrow> (w1, False, Some err)
      | (w1, Inr content) \<Rightarrow>
          if \<not> HasPrefix content pfx then (w1, False, None)
          else
            let newStr = TrimPrefix content pfx;
                newStr = (if lineEnd then TrimPrefix newStr [LF] else newStr)
            in (case WriteFile w1 p newStr of
                  (w2, Some err) \<Rightarrow> (w2, False, Some err)
                | (w2, None) \<Rightarrow> (w2, True, None)))"

section \<open>The file selector\<close>

text \<open>
  The callback of \<^verbatim>\<open>walkMatch\<close>; the captured slice \<open>matches\<close> is its state. A
  \<open>nil\<close> file information comes only with an error, which is returned before
  \<^verbatim>\<open>info.IsDir()\<close> is reached; without one the call would panic, which is the
  branch \<open>None\<close> below (never taken by \<open>Walk\<close>).
\<close>

definition walkMatch_fn :: "string \<Rightarrow> path list WalkFunc" where
  "walkMatch_fn pat p info err matches =
     (if err \<noteq> None then (matches, err)
      else
        case info of
          None \<Rightarrow> (matches, Some (Errorf ''invalid memory address or nil pointer dereference''))
        | Some fi \<Rightarrow>
            if IsDir fi then (matches, None)
            else
              (case Match pat (Base p) of
                 (matched, Some err1) \<Rightarrow> (matches, Some err1)
               | (matched, None) \<Rightarrow>
                   if matched then (matches @ [p], None) else (matches, None)))"

text \<open>
  \<^verbatim>\<open>func walkMatch(root, pattern string) ([]string, error)\<close>. The first argument
  is the tree of the world.
\<close>

definition walkMatch :: "(path \<Rightarrow> node) \<Rightarrow> path \<Rightarrow> string \<Rightarrow> error + path list" where
  "walkMatch tr root pat =
     (case Walk (tr root) (walkMatch_fn pat) [] of
        (matches, Some err) \<Rightarrow> Inl err
      | (matches, None) \<Rightarrow> Inr matches)"

section \<open>The commands\<close>

record opts =
  rootPath :: string
  prefix :: string
  pattern :: string
  withLineEnd :: bool

text \<open>The verb \<open>%d\<close> of \<^verbatim>\<open>fmt.Sprintf\<close> for a length.\<close>

fun decimal :: "nat \<Rightarrow> string" where
  "decimal n =
     (if n < 10 then [char_of (48 + n)]
      else decimal (n div 10) @ [char_of (48 + n mod 10)])"

declare decimal.simps [simp del]

text \<open>The bullet U+2022 of the listing, in UTF-8.\<close>

definition bullet :: string where
  "bullet = [CHR 0xE2, CHR 0x80, CHR 0xA2]"

text \<open>
  \<^verbatim>\<open>func getFilePaths(rootPath, pattern string) ([]string, error)\<close>
\<close>

definition getFilePaths :: "world \<Rightarrow> path \<Rightarrow> string \<Rightarrow> world \<times> (error + path list)" where
  "getFilePaths w root pat =
     (case walkMatch (tree w) root pat of
        Inl err \<Rightarrow> (w, Inl (Wrap err ''error walking root path''))
      | Inr files \<Rightarrow>
          if length files = 0
          then (Println w ''No files matching the pattern found'', Inr [])
          else
            let w1 = Println w (''Found '' @ decimal (length files)
                                  @ '' files matching the pattern: '');
                w2 = foldl (\<lambda>w' f. Println w' (''  '' @ bullet @ '' '' @ f)) w1 files
            in (w2, Inr files))"

text \<open>The loop over the files of \<^verbatim>\<open>injectCmd\<close>.\<close>

fun injectCmd_loop :: "world \<Rightarrow> opts \<Rightarrow> path list \<Rightarrow> world" where
  "injectCmd_loop w options [] = w"
| "injectCmd_loop w options (f # files) =
     (case injectPrefix w f (prefix options) (withLineEnd options) of
        (w1, injected, err) \<Rightarrow>
          let w2 = (case err of
                      Some e \<Rightarrow>
                        Println w1 (''Error injecting prefix to file '' @ f @ '': '' @ Error_text e)
                    | None \<Rightarrow> w1);
              w3 = (if \<not> injected
                    then Println w2 (''File '' @ f @ '' already has the prefix'')
                    else w2)
          in injectCmd_loop w3 options files)"

text \<open>
  \<^verbatim>\<open>func injectCmd(options opts) error\<close>. \<^verbatim>\<open>fmt.Println\<close> puts a space
  between its operands.
\<close>

definition injectCmd :: "world \<Rightarrow> opts \<Rightarrow> world \<times> error option" where
  "injectCmd w options =
     (let w1 = Println w (''Prefix '' @ '' '' @ prefix options);
          w2 = Println w1 (''Pattern '' @ '' '' @ pattern options)
      in case getFilePaths w2 (rootPath options) (pattern options) of
           (w3, Inl err) \<Rightarrow> (w3, Some err)
         | (w3, Inr files) \<Rightarrow>
             let w4 = Println w3 [];
                 w5 = Println w4 ''Starting injection'';
                 w6 = Println w5 [];
                 w7 = injectCmd_loop w6 options files;
                 w8 = Println w7 [];
                 w9 = Println w8 ''Injection finished''
             in (w9, None))"

text \<open>The loop over the files of \<^verbatim>\<open>removeCmd\<close>.\<close>

fun removeCmd_loop :: "world \<Rightarrow> opts \<Rightarrow> path list \<Rightarrow> world" where
  "removeCmd_loop w options [] = w"
| "removeCmd_loop w options (f # files) =
     (case removePrefix w f (prefix options) (withLineEnd options) of
        (w1, removed, err) \<Rightarrow>
          let w2 = (case err of
                      Some e \<Rightarrow>
                        Println w1 (''Error removing prefix from file '' @ f @ '': '' @ Error_text e)
                    | None \<Rightarrow> w1);
              w3 = (if \<not> removed
                    then Println w2 (''File '' @ f @ '' did not have the prefix'')
                    else w2)
          in removeCmd_loop w3 options files)"

text \<open>
  \<^verbatim>\<open>func removeCmd(options opts) error\<close>
\<close>

definition removeCmd :: "world \<Rightarrow> opts \<Rightarrow> world \<times> error option" where
  "removeCmd w options =
     (case getFilePaths w (rootPath options) (pattern options) of
        (w1, Inl err) \<Rightarrow> (w1, Some err)
      | (w1, Inr files) \<Rightarrow>
          let w2 = Println w1 [];
              w3 = Println w2 ''Starting removal'';
              w4 = Println w3 [];
              w5 = removeCmd_loop w4 options files;
              w6 = Println w5 [];
              w7 = Println w6 ''Removal finished''
          in (w7, None))"

section \<open>Options\<close>

text \<open>
  \<^verbatim>\<open>func loadFile(filePath string) (string, error)\<close>
\<close>

definition loadFile :: "world \<Rightarrow> path \<Rightarrow> world \<times> (error + string)" where
  "loadFile w filePath =
     (if filePath = [] then (w, Inr [])
      else
        case ReadFile w filePath of
          (w1, Inl err) \<Rightarrow> (w1, Inl (Wrap err ''failed to read file content''))
        | (w1, Inr content) \<Rightarrow> (w1, Inr content))"

text \<open>
  The values of the flags \<^verbatim>\<open>optsFlags\<close> declares, as \<^verbatim>\<open>cmd.Flags()\<close> holds them
  after the command line is parsed; \<open>optsFlags\<close> is the set of their defaults.
\<close>

record flagset =
  flag_pattern :: string
  flag_prefix :: string
  flag_prefix_file :: string
  flag_with_line_end :: bool

definition optsFlags :: flagset where
  "optsFlags = \<lparr>flag_pattern = ''*'', flag_prefix = [], flag_prefix_file = [],
                 flag_with_line_end = False\<rparr>"

text \<open>
  \<^verbatim>\<open>func parseOpts(cmd *cobra.Command, args []string) (opts, error)\<close>
\<close>

definition parseOpts :: "world \<Rightarrow> flagset \<Rightarrow> string list \<Rightarrow> world \<times> (error + opts)" where
  "parseOpts w flags args =
     (if length args < 1 then (w, Inl (Errorf ''requires 1 argument [ROOT_PATH]''))
      else
        let p = args ! 0 in
        if p = [] then (w, Inl (Errorf ''requires 1 argument [ROOT_PATH]''))
        else
          let pfx0 = flag_prefix flags in
          case (if pfx0 = []
                then (case loadFile w (flag_prefix_file flags) of
                        (w1, Inl err) \<Rightarrow>
                          (w1, Inl (Wrap err ''failed to load content of prefix file''))
                      | (w1, Inr content) \<Rightarrow> (w1, Inr content))
                else (w, Inr pfx0)) of
            (w1, Inl err) \<Rightarrow> (w1, Inl err)
          | (w1, Inr pfx) \<Rightarrow>
              if pfx = []
              then (w1, Inl (Errorf ''prefix not provided, specify --prefix or --prefix-file''))
              else (w1, Inr \<lparr>rootPath = p, prefix = pfx, pattern = flag_pattern flags,
                              withLineEnd = flag_with_line_end flags\<rparr>))"

text \<open>The \<open>RunE\<close> closures of \<^verbatim>\<open>injectCommand\<close> and \<^verbatim>\<open>removeCommand\<close>.\<close>

definition injectCommand_RunE :: "world \<Rightarrow> flagset \<Rightarrow> string list \<Rightarrow> world \<times> error option" where
  "injectCommand_RunE w flags args =
     (case parseOpts w flags args of
        (w1, Inl err) \<Rightarrow> (w1, Some err)
      | (w1, Inr options) \<Rightarrow> injectCmd w1 options)"

definition removeCommand_RunE :: "world \<Rightarrow> flagset \<Rightarrow> string list \<Rightarrow> world \<times> error option" where
  "removeCommand_RunE w flags args =
     (case parseOpts w flags args of
        (w1, Inl err) \<Rightarrow> (w1, Some err)
      | (w1, Inr options) \<Rightarrow> removeCmd w1 options)"

section \<open>Example worlds\<close>

text \<open>
  A world with one file, readable and writable, no links and no directory tree: the
  examples of the prefix mutator run in it.
\<close>

definition one_file :: "path \<Rightarrow> string \<Rightarrow> world" where
  "one_file p content =
     \<lparr>store = [p \<mapsto> \<lparr>data = content, readable = True, writable = True\<rparr>],
      target = (\<lambda>q. q),
      tree = (\<lambda>r. NoStat r (PathError ''lstat'' r ''no such file or directory'')),
      trace = [], out = []\<rparr>"

text \<open>
  A directory \<open>d\<close> with three files and no links: \<open>a.txt\<close>, which cannot be opened,
  \<open>b.txt\<close> and \<open>c.json\<close>.
\<close>

definition small_tree :: world where
  "small_tree =
     \<lparr>store = [''d/a.txt'' \<mapsto> \<lparr>data = ''y'', readable = False, writable = False\<rparr>,
               ''d/b.txt'' \<mapsto> \<lparr>data = ''x'', readable = True, writable = True\<rparr>,
               ''d/c.json'' \<mapsto> \<lparr>data = ''z'', readable = True, writable = True\<rparr>],
      target = (\<lambda>q. q),
      tree = (\<lambda>r. if r = ''d''
                  then Dir ''d'' [Leaf ''d/a.txt'', Leaf ''d/b.txt'', Leaf ''d/c.json'']
                  else NoStat r (PathError ''lstat'' r ''no such file or directory'')),
      trace = [], out = []\<rparr>"

text \<open>
  A directory \<open>d\<close> with the file \<open>c.json\<close> and a symbolic link \<open>link.txt\<close> to it.
\<close>

definition linked_tree :: world where
  "linked_tree =
     \<lparr>store = [''d/c.json'' \<mapsto> \<lparr>data = ''z'', readable = True, writable = True\<rparr>],
      target = (\<lambda>q. if q = ''d/link.txt'' then ''d/c.json'' else q),
      tree = (\<lambda>r. if r = ''d''
                  then Dir ''d'' [Leaf ''d/c.json'', Leaf ''d/link.txt'']
                  else NoStat r (PathError ''lstat'' r ''no such file or directory'')),
      trace = [], out = []\<rparr>"

section \<open>Prefixes of strings\<close>

lemma HasPrefix_append [simp]: "HasPrefix (pfx @ t) pfx"
  by (simp add: HasPrefix_def)

lemma HasPrefix_Nil [simp]: "HasPrefix s []"
  by (simp add: HasPrefix_def)

lemma TrimPrefix_append [simp]: "TrimPrefix (pfx @ t) pfx = t"
  by (simp add: TrimPrefix_def)

lemma TrimPrefix_Nil [simp]: "TrimPrefix s [] = s"
  by (simp add: TrimPrefix_def)

lemma TrimPrefix_LF:
  "TrimPrefix s [LF] = (case s of [] \<Rightarrow> [] | c # cs \<Rightarrow> if c = LF then cs else s)"
  by (cases s) (auto simp: TrimPrefix_def HasPrefix_def)

section \<open>The prefix mutator: what is written and what is reported\<close>

lemma one_file_target [simp]: "target (one_file p content) q = q"
  by (simp add: one_file_def)

lemma injectPrefix_store:
  "store (fst (injectPrefix w p pfx lineEnd)) =
     (case store w (target w p) of
        None \<Rightarrow> store w
      | Some f \<Rightarrow>
          if readable f \<and> writable f \<and> \<not> HasPrefix (data f) pfx
          then (store w)(target w p \<mapsto> f\<lparr>data := pfx @ (if lineEnd then [LF] else []) @ data f\<rparr>)
          else store w)"
  by (simp add: injectPrefix_def ReadFile_def WriteFile_def Let_def split: option.splits)

lemma removePrefix_store:
  "store (fst (removePrefix w p pfx lineEnd)) =
     (case store w (target w p) of
        None \<Rightarrow> store w
      | Some f \<Rightarrow>
          if readable f \<and> writable f \<and> HasPrefix (data f) pfx
          then (store w)(target w p \<mapsto>
                  f\<lparr>data := (if lineEnd then TrimPrefix (TrimPrefix (data f) pfx) [LF]
                              else TrimPrefix (data f) pfx)\<rparr>)
          else store w)"
  by (simp add: removePrefix_def ReadFile_def WriteFile_def Let_def split: option.splits)

lemma injectPrefix_changed:
  "fst (snd (injectPrefix w p pfx lineEnd)) =
     (case store w (target w p) of
        None \<Rightarrow> False
      | Some f \<Rightarrow> readable f \<and> writable f \<and> \<not> HasPrefix (data f) pfx)"
  by (simp add: injectPrefix_def ReadFile_def WriteFile_def Let_def split: option.splits)

lemma removePrefix_changed:
  "fst (snd (removePrefix w p pfx lineEnd)) =
     (case store w (target w p) of
        None \<Rightarrow> False
      | Some f \<Rightarrow> readable f \<and> writable f \<and> HasPrefix (data f) pfx)"
  by (simp add: removePrefix_def ReadFile_def WriteFile_def Let_def split: option.splits)

lemma Println_simps [simp]:
  "store (Println w s) = store w" "trace (Println w s) = trace w"
  "tree (Println w s) = tree w" "out (Println w s) = out w @ [s]"
  "target (Println w s) = target w"
  by (simp_all add: Println_def)

lemma reads_append [simp]: "reads (a @ b) = reads a @ reads b"
  by (induction a rule: reads.induct) simp_all



lemma injectPrefix_frame [simp]:
  "out (fst (injectPrefix w p pfx lineEnd)) = out w"
  "tree (fst (injectPrefix w p pfx lineEnd)) = tree w"
  "target (fst (injectPrefix w p pfx lineEnd)) = target w"
  "reads (trace (fst (injectPrefix w p pfx lineEnd))) = reads (trace w) @ [p]"
  by (simp_all add: injectPrefix_def ReadFile_def WriteFile_def Let_def split: option.splits)

lemma removePrefix_frame [simp]:
  "out (fst (removePrefix w p pfx lineEnd)) = out w"
  "tree (fst (removePrefix w p pfx lineEnd)) = tree w"
  "target (fst (removePrefix w p pfx lineEnd)) = target w"
  "reads (trace (fst (removePrefix w p pfx lineEnd))) = reads (trace w) @ [p]"
  by (simp_all add: removePrefix_def ReadFile_def WriteFile_def Let_def split: option.splits)



lemma injectPrefix_other:
  "target w g \<noteq> k \<Longrightarrow> store (fst (injectPrefix w g pfx lineEnd)) k = store w k"
  by (simp add: injectPrefix_store split: option.splits)

lemma removePrefix_other:
  "target w g \<noteq> k \<Longrightarrow> store (fst (removePrefix w g pfx lineEnd)) k = store w k"
  by (simp add: removePrefix_store split: option.splits)





lemma injectCmd_loop_step:
  "\<exists>w3. injectCmd_loop w options (f # files) = injectCmd_loop w3 options files
     \<and> store w3 = store (fst (injectPrefix w f (prefix options) (withLineEnd options)))
     \<and> target w3 = target w
     \<and> reads (trace w3) = reads (trace w) @ [f]
     \<and> set (out w) \<subseteq> set (out w3)
     \<and> (\<forall>e. snd (snd (injectPrefix w f (prefix options) (withLineEnd options))) = Some e \<longrightarrow>
            ''Error injecting prefix to file '' @ f @ '': '' @ Error_text e \<in> set (out w3))"
proof -
  obtain w1 injected err
    where r: "injectPrefix w f (prefix options) (withLineEnd options) = (w1, injected, err)"
    by (cases "injectPrefix w f (prefix options) (withLineEnd options)") auto
  have w1: "out w1 = out w" "reads (trace w1) = reads (trace w) @ [f]" "target w1 = target w"
    using injectPrefix_frame(1,4,3) [of w f "prefix options" "withLineEnd options"] r by simp_all
  show ?thesis
    using r w1 by (cases err; cases injected) (auto simp: Let_def)
qed

lemma removeCmd_loop_step:
  "\<exists>w3. removeCmd_loop w options (f # files) = removeCmd_loop w3 options files
     \<and> store w3 = store (fst (removePrefix w f (prefix options) (withLineEnd options)))
     \<and> target w3 = target w
     \<and> reads (trace w3) = reads (trace w) @ [f]
     \<and> set (out w) \<subseteq> set (out w3)
     \<and> (\<forall>e. snd (snd (removePrefix w f (prefix options) (withLineEnd options))) = Some e \<longrightarrow>
            ''Error removing prefix from file '' @ f @ '': '' @ Error_text e \<in> set (out w3))"
proof -
  obtain w1 removed err
    where r: "removePrefix w f (prefix options) (withLineEnd options) = (w1, removed, err)"
    by (cases "removePrefix w f (prefix options) (withLineEnd options)") auto
  have w1: "out w1 = out w" "reads (trace w1) = reads (trace w) @ [f]" "target w1 = target w"
    using removePrefix_frame(1,4,3) [of w f "prefix options" "withLineEnd options"] r by simp_all
  show ?thesis
    using r w1 by (cases err; cases removed) (auto simp: Let_def)
qed







lemma foldl_Println [simp]:
  "store (foldl (\<lambda>w' f. Println w' (g f)) w fs) = store w"
  "trace (foldl (\<lambda>w' f. Println w' (g f)) w fs) = trace w"
  "tree (foldl (\<lambda>w' f. Println w' (g f)) w fs) = tree w"
  "target (foldl (\<lambda>w' f. Println w' (g f)) w fs) = target w"
  by (induction fs arbitrary: w) simp_all

lemma getFilePaths_ok:
  "walkMatch (tree w) root pat = Inr files \<Longrightarrow>
   \<exists>w'. getFilePaths w root pat = (w', Inr files)
     \<and> store w' = store w \<and> trace w' = trace w \<and> tree w' = tree w
     \<and> target w' = target w"
  by (cases files) (simp_all add: getFilePaths_def Let_def)

lemma injectCmd_ok:
  assumes "walkMatch (tree w) (rootPath options) (pattern options) = Inr files"
  shows "\<exists>w6. injectCmd w options
            = (Println (Println (injectCmd_loop w6 options files) []) ''Injection finished'', None)
          \<and> store w6 = store w \<and> trace w6 = trace w \<and> target w6 = target w"
proof -
  define w2 where "w2 = Println (Println w (''Prefix '' @ '' '' @ prefix options))
                          (''Pattern '' @ '' '' @ pattern options)"
  have "walkMatch (tree w2) (rootPath options) (pattern options) = Inr files"
    using assms by (simp add: w2_def)
  then obtain w3 where g: "getFilePaths w2 (rootPath options) (pattern options) = (w3, Inr files)"
    and s: "store w3 = store w2" "trace w3 = trace w2" "target w3 = target w2"
    using getFilePaths_ok by blast
  have "injectCmd w options
      = (Println (Println (injectCmd_loop (Println (Println (Println w3 []) ''Starting injection'') [])
            options files) []) ''Injection finished'', None)"
    using g unfolding injectCmd_def w2_def [symmetric] Let_def by simp
  moreover have "store (Println (Println (Println w3 []) ''Starting injection'') []) = store w"
    "trace (Println (Println (Println w3 []) ''Starting injection'') []) = trace w"
    "target (Println (Println (Println w3 []) ''Starting injection'') []) = target w"
    using s by (simp_all add: w2_def)
  ultimately show ?thesis by blast
qed

lemma removeCmd_ok:
  assumes "walkMatch (tree w) (rootPath options) (pattern options) = Inr files"
  shows "\<exists>w4. removeCmd w options
            = (Println (Println (removeCmd_loop w4 options files) []) ''Removal finished'', None)
          \<and> store w4 = store w \<and> trace w4 = trace w \<and> target w4 = target w"
proof -
  obtain w1 where g: "getFilePaths w (rootPath options) (pattern options) = (w1, Inr files)"
    and s: "store w1 = store w" "trace w1 = trace w" "target w1 = target w"
    using getFilePaths_ok [OF assms] by blast
  have "removeCmd w options
      = (Println (Println (removeCmd_loop (Println (Println (Println w1 []) ''Starting removal'') [])
            options files) []) ''Removal finished'', None)"
    using g unfolding removeCmd_def Let_def by simp
  moreover have "store (Println (Println (Println w1 []) ''Starting removal'') []) = store w"
    "trace (Println (Println (Println w1 []) ''Starting removal'') []) = trace w"
    "target (Println (Println (Println w1 []) ''Starting removal'') []) = target w"
    using s by simp_all
  ultimately show ?thesis by blast
qed

lemma small_tree_walk:
  "walkMatch (tree small_tree) ''d'' ''*.txt'' = Inr [''d/a.txt'', ''d/b.txt'']"
  by code_simp

section \<open>Properties of the prefix mutator\<close>

text \<open>
  In the statements below the file of a path \<open>p\<close> is \<open>store w (target w p)\<close>, the file
  that \<open>p\<close> names once links are followed.

  Claim C1 (round trip). Let the file at \<open>p\<close> have a content that does not start with
  the prefix. Then \<open>injectPrefix\<close> followed by \<open>removePrefix\<close>, with the same prefix and
  the same line-break flag (either value), leaves every file with its original
  content; and when the file can be read and written, both calls report a change, so
  the prefix was really added and removed again. (A prefix that is not a prefix of the
  content is non-empty.)
\<close>

theorem round_trip:
  "store w (target w p) = Some f \<Longrightarrow> \<not> HasPrefix (data f) pfx \<Longrightarrow>
   store (fst (removePrefix (fst (injectPrefix w p pfx lineEnd)) p pfx lineEnd)) = store w
   \<and> (readable f \<and> writable f \<longrightarrow>
        fst (snd (injectPrefix w p pfx lineEnd))
        \<and> fst (snd (removePrefix (fst (injectPrefix w p pfx lineEnd)) p pfx lineEnd)))"
  by (auto simp add: injectPrefix_store removePrefix_store injectPrefix_changed
        removePrefix_changed TrimPrefix_LF map_upd_triv)

theorem round_trip_witness:
  "store (fst (removePrefix (fst (injectPrefix (one_file ''f'' ''hello'') ''f'' ''PFX'' True))
                  ''f'' ''PFX'' True)) = store (one_file ''f'' ''hello'')
   \<and> fst (snd (injectPrefix (one_file ''f'' ''hello'') ''f'' ''PFX'' True))
   \<and> fst (snd (removePrefix (fst (injectPrefix (one_file ''f'' ''hello'') ''f'' ''PFX'' True))
                  ''f'' ''PFX'' True))"
  using round_trip [of "one_file ''f'' ''hello''" "''f''"
      "\<lparr>data = ''hello'', readable = True, writable = True\<rparr>" "''PFX''" True]
  by (simp add: one_file_def HasPrefix_def)

text \<open>
  Claim C2 (remove is idempotent) does not hold: from the content \<open>aab\<close> the first
  \<open>removePrefix\<close> of \<open>a\<close> leaves \<open>ab\<close> and the second leaves \<open>b\<close>.
\<close>

theorem removePrefix_twice_counterexample:
  "store (fst (removePrefix (one_file ''f'' ''aab'') ''f'' ''a'' False)) ''f''
     = Some \<lparr>data = ''ab'', readable = True, writable = True\<rparr>
   \<and> store (fst (removePrefix (fst (removePrefix (one_file ''f'' ''aab'') ''f'' ''a'' False))
                 ''f'' ''a'' False)) ''f''
     = Some \<lparr>data = ''b'', readable = True, writable = True\<rparr>
   \<and> store (fst (removePrefix (fst (removePrefix (one_file ''f'' ''aab'') ''f'' ''a'' False))
                 ''f'' ''a'' False)) ''f''
     \<noteq> store (fst (removePrefix (one_file ''f'' ''aab'') ''f'' ''a'' False)) ''f''"
  by (simp add: removePrefix_store one_file_def HasPrefix_def TrimPrefix_def)

text \<open>
  Claim C2 as amended. A second \<open>removePrefix\<close> with the same prefix and flag changes
  no file when the content the first one left at the path does not start with the
  prefix (so after a removal that undoes an injection, and whenever the first call
  found no prefix and the file was as it is). When that content does start with the
  non-empty prefix again and the file can be read and written, the second call
  strips a further occurrence.
\<close>

theorem removePrefix_twice:
  "((\<forall>f1. store (fst (removePrefix w p pfx lineEnd)) (target w p) = Some f1 \<longrightarrow>
           \<not> HasPrefix (data f1) pfx)
     \<longrightarrow> store (fst (removePrefix (fst (removePrefix w p pfx lineEnd)) p pfx lineEnd))
          = store (fst (removePrefix w p pfx lineEnd)))
   \<and> (store (fst (removePrefix w p pfx lineEnd)) (target w p) = Some f1
        \<and> readable f1 \<and> writable f1 \<and> pfx \<noteq> [] \<and> data f1 = pfx @ rest
     \<longrightarrow> store (fst (removePrefix (fst (removePrefix w p pfx lineEnd)) p pfx lineEnd))
            (target w p)
          = Some (f1\<lparr>data := (if lineEnd \<and> rest \<noteq> [] \<and> hd rest = LF then tl rest else rest)\<rparr>)
        \<and> store (fst (removePrefix (fst (removePrefix w p pfx lineEnd)) p pfx lineEnd))
            (target w p)
          \<noteq> store (fst (removePrefix w p pfx lineEnd)) (target w p))"
proof (intro conjI impI)
  assume "\<forall>f1. store (fst (removePrefix w p pfx lineEnd)) (target w p) = Some f1 \<longrightarrow>
           \<not> HasPrefix (data f1) pfx"
  then show "store (fst (removePrefix (fst (removePrefix w p pfx lineEnd)) p pfx lineEnd))
          = store (fst (removePrefix w p pfx lineEnd))"
    by (simp add: removePrefix_store [of "fst (removePrefix w p pfx lineEnd)"]
          split: option.splits)
next
  assume a: "store (fst (removePrefix w p pfx lineEnd)) (target w p) = Some f1
        \<and> readable f1 \<and> writable f1 \<and> pfx \<noteq> [] \<and> data f1 = pfx @ rest"
  have t: "TrimPrefix rest [LF] = (if rest \<noteq> [] \<and> hd rest = LF then tl rest else rest)"
    by (cases rest) (simp_all add: TrimPrefix_LF)
  from a t show second:
    "store (fst (removePrefix (fst (removePrefix w p pfx lineEnd)) p pfx lineEnd)) (target w p)
          = Some (f1\<lparr>data := (if lineEnd \<and> rest \<noteq> [] \<and> hd rest = LF then tl rest else rest)\<rparr>)"
    by (simp add: removePrefix_store [of "fst (removePrefix w p pfx lineEnd)"])
  have "length (if lineEnd \<and> rest \<noteq> [] \<and> hd rest = LF then tl rest else rest) < length (data f1)"
    using a by (cases pfx) auto
  then have "data (f1\<lparr>data := (if lineEnd \<and> rest \<noteq> [] \<and> hd rest = LF then tl rest else rest)\<rparr>)
      \<noteq> data f1"
    by auto
  then have "f1\<lparr>data := (if lineEnd \<and> rest \<noteq> [] \<and> hd rest = LF then tl rest else rest)\<rparr> \<noteq> f1"
    by metis
  with a second
  show "store (fst (removePrefix (fst (removePrefix w p pfx lineEnd)) p pfx lineEnd)) (target w p)
          \<noteq> store (fst (removePrefix w p pfx lineEnd)) (target w p)"
    by simp
qed

theorem removePrefix_twice_witness:
  "store (fst (removePrefix (fst (removePrefix (one_file ''g'' ''abb'') ''g'' ''a'' True))
                 ''g'' ''a'' True))
     = store (fst (removePrefix (one_file ''g'' ''abb'') ''g'' ''a'' True))
   \<and> store (fst (removePrefix (one_file ''g'' ''abb'') ''g'' ''a'' True)) ''g''
     = Some \<lparr>data = ''bb'', readable = True, writable = True\<rparr>
   \<and> store (fst (removePrefix (fst (removePrefix (one_file ''g'' ''aaab'') ''g'' ''a'' True))
                 ''g'' ''a'' True)) ''g''
     = Some \<lparr>data = ''ab'', readable = True, writable = True\<rparr>"
proof -
  have once: "store (fst (removePrefix (one_file ''g'' ''abb'') ''g'' ''a'' True))
      = [''g'' \<mapsto> \<lparr>data = ''bb'', readable = True, writable = True\<rparr>]"
    by (simp add: removePrefix_store one_file_def HasPrefix_def TrimPrefix_def LF_def)
  have once': "store (fst (removePrefix (one_file ''g'' ''aaab'') ''g'' ''a'' True))
      = [''g'' \<mapsto> \<lparr>data = ''aab'', readable = True, writable = True\<rparr>]"
    by (simp add: removePrefix_store one_file_def HasPrefix_def TrimPrefix_def LF_def)
  show ?thesis
    using removePrefix_twice [where w = "one_file ''g'' ''abb''" and p = "''g''" and pfx = "''a''"
        and lineEnd = True and rest = "''ab''"
        and ?f1.0 = "\<lparr>data = ''aab'', readable = True, writable = True\<rparr>"]
      removePrefix_twice [where w = "one_file ''g'' ''aaab''" and p = "''g''" and pfx = "''a''"
        and lineEnd = True and rest = "''ab''"
        and ?f1.0 = "\<lparr>data = ''aab'', readable = True, writable = True\<rparr>"]
    by (simp add: once once' HasPrefix_def LF_def)
qed

text \<open>
  Claim C3 (the skip of inject ignores the line-break flag). When the content is the
  prefix followed by anything at all (\<open>rest\<close>), \<open>injectPrefix\<close> only reads the file: it
  reports \<open>changed = false\<close> with no error and leaves the world as it was but for the
  logged read, whatever the flag. Hence inject is idempotent: whatever the first call
  did, a second call with the same prefix (and any flag) changes no file and reports
  \<open>false\<close>.
\<close>

theorem injectPrefix_skip:
  "(store w (target w p) = Some f \<and> readable f \<and> data f = pfx @ rest \<longrightarrow>
      injectPrefix w p pfx lineEnd = (w\<lparr>trace := trace w @ [ReadEv p]\<rparr>, False, None))
   \<and> store (fst (injectPrefix (fst (injectPrefix w p pfx lineEnd)) p pfx lineEnd2))
       = store (fst (injectPrefix w p pfx lineEnd))
   \<and> \<not> fst (snd (injectPrefix (fst (injectPrefix w p pfx lineEnd)) p pfx lineEnd2))"
proof (intro conjI impI)
  assume "store w (target w p) = Some f \<and> readable f \<and> data f = pfx @ rest"
  then show "injectPrefix w p pfx lineEnd = (w\<lparr>trace := trace w @ [ReadEv p]\<rparr>, False, None)"
    by (simp add: injectPrefix_def ReadFile_def)
next
  show "store (fst (injectPrefix (fst (injectPrefix w p pfx lineEnd)) p pfx lineEnd2))
       = store (fst (injectPrefix w p pfx lineEnd))"
    by (simp add: injectPrefix_store split: option.splits)
next
  show "\<not> fst (snd (injectPrefix (fst (injectPrefix w p pfx lineEnd)) p pfx lineEnd2))"
    by (simp add: injectPrefix_changed injectPrefix_store split: option.splits)
qed

theorem injectPrefix_skip_witness:
  "injectPrefix (one_file ''f'' ''PFXhello'') ''f'' ''PFX'' True
     = ((one_file ''f'' ''PFXhello'')\<lparr>trace := [ReadEv ''f'']\<rparr>, False, None)"
  using injectPrefix_skip [of "one_file ''f'' ''PFXhello''" "''f''"
      "\<lparr>data = ''PFXhello'', readable = True, writable = True\<rparr>" "''PFX''" "''hello''" True]
  by (simp add: one_file_def)

text \<open>
  Claim C4 (what inject writes). When the content of a readable and writable file
  does not start with the prefix, \<open>injectPrefix\<close> writes the prefix, then one line
  break exactly when the flag is set, then the original content, and reports
  \<open>changed = true\<close> with no error. The example of the witness: the prefix
  \<open>A\<newline>B\<newline>\<close> injected with the flag into \<open>x\<close> gives \<open>A\<newline>B\<newline>\<newline>x\<close>.
\<close>

theorem injectPrefix_constructs:
  "store w (target w p) = Some f \<Longrightarrow> readable f \<Longrightarrow> writable f \<Longrightarrow> \<not> HasPrefix (data f) pfx \<Longrightarrow>
   injectPrefix w p pfx lineEnd =
     (w\<lparr>trace := trace w @ [ReadEv p, WriteEv p (pfx @ (if lineEnd then [LF] else []) @ data f)],
        store := (store w)(target w p \<mapsto> f\<lparr>data := pfx @ (if lineEnd then [LF] else []) @ data f\<rparr>)\<rparr>,
      True, None)"
  by (simp add: injectPrefix_def ReadFile_def WriteFile_def Let_def)

theorem injectPrefix_constructs_witness:
  "injectPrefix (one_file ''f'' ''x'') ''f'' (''A'' @ [LF] @ ''B'' @ [LF]) True =
     (\<lparr>store = [''f'' \<mapsto> \<lparr>data = ''A'' @ [LF] @ ''B'' @ [LF] @ [LF] @ ''x'',
                           readable = True, writable = True\<rparr>],
       target = target (one_file ''f'' ''x''),
       tree = tree (one_file ''f'' ''x''),
       trace = [ReadEv ''f'', WriteEv ''f'' (''A'' @ [LF] @ ''B'' @ [LF] @ [LF] @ ''x'')],
       out = []\<rparr>, True, None)"
  using injectPrefix_constructs [of "one_file ''f'' ''x''" "''f''"
      "\<lparr>data = ''x'', readable = True, writable = True\<rparr>" "''A'' @ [LF] @ ''B'' @ [LF]" True]
  by (simp add: one_file_def HasPrefix_def)

text \<open>
  Claim C5 (the contract of remove). When the content of a readable file does not
  start with the prefix, \<open>removePrefix\<close> reports \<open>changed = false\<close> and only reads. When
  the content of a readable and writable file is the prefix followed by \<open>rest\<close>, it
  writes back \<open>rest\<close>, without its first character when the flag is set and that
  character is a line break, and reports \<open>changed = true\<close>; a \<open>rest\<close> that does not
  start with a line break is written as it is, without an error. The example of the
  witness: \<open>PFX\<newline>hello\<close> becomes \<open>hello\<close>.
\<close>

theorem removePrefix_contract:
  "(store w (target w p) = Some f \<and> readable f \<and> \<not> HasPrefix (data f) pfx \<longrightarrow>
      removePrefix w p pfx lineEnd = (w\<lparr>trace := trace w @ [ReadEv p]\<rparr>, False, None))
   \<and> (store w (target w p) = Some f \<and> readable f \<and> writable f \<and> data f = pfx @ rest \<longrightarrow>
      removePrefix w p pfx lineEnd =
        (let newStr = (if lineEnd \<and> rest \<noteq> [] \<and> hd rest = LF then tl rest else rest)
         in (w\<lparr>trace := trace w @ [ReadEv p, WriteEv p newStr],
               store := (store w)(target w p \<mapsto> f\<lparr>data := newStr\<rparr>)\<rparr>, True, None)))"
proof (intro conjI impI)
  assume "store w (target w p) = Some f \<and> readable f \<and> \<not> HasPrefix (data f) pfx"
  then show "removePrefix w p pfx lineEnd = (w\<lparr>trace := trace w @ [ReadEv p]\<rparr>, False, None)"
    by (simp add: removePrefix_def ReadFile_def)
next
  assume a: "store w (target w p) = Some f \<and> readable f \<and> writable f \<and> data f = pfx @ rest"
  have "TrimPrefix rest [LF] = (if rest \<noteq> [] \<and> hd rest = LF then tl rest else rest)"
    by (cases rest) (simp_all add: TrimPrefix_LF)
  with a show "removePrefix w p pfx lineEnd =
        (let newStr = (if lineEnd \<and> rest \<noteq> [] \<and> hd rest = LF then tl rest else rest)
         in (w\<lparr>trace := trace w @ [ReadEv p, WriteEv p newStr],
               store := (store w)(target w p \<mapsto> f\<lparr>data := newStr\<rparr>)\<rparr>, True, None))"
    by (simp add: removePrefix_def ReadFile_def WriteFile_def Let_def)
qed

theorem removePrefix_contract_witness:
  "removePrefix (one_file ''f'' (''PFX'' @ [LF] @ ''hello'')) ''f'' ''PFX'' True =
     (\<lparr>store = [''f'' \<mapsto> \<lparr>data = ''hello'', readable = True, writable = True\<rparr>],
       target = target (one_file ''f'' ''x''),
       tree = tree (one_file ''f'' ''x''),
       trace = [ReadEv ''f'', WriteEv ''f'' ''hello''],
       out = []\<rparr>, True, None)
   \<and> removePrefix (one_file ''f'' ''hello'') ''f'' ''PFX'' True =
     ((one_file ''f'' ''hello'')\<lparr>trace := [ReadEv ''f'']\<rparr>, False, None)"
  using removePrefix_contract [of "one_file ''f'' (''PFX'' @ [LF] @ ''hello'')" "''f''"
      "\<lparr>data = ''PFX'' @ [LF] @ ''hello'', readable = True, writable = True\<rparr>" "''PFX''" True
      "[LF] @ ''hello''"]
    removePrefix_contract [of "one_file ''f'' ''hello''" "''f''"
      "\<lparr>data = ''hello'', readable = True, writable = True\<rparr>" "''PFX''" True "[]"]
  by (simp add: one_file_def HasPrefix_def Let_def)

text \<open>
  Claim C10 (the empty prefix). With the empty string as prefix, \<open>injectPrefix\<close> on a
  readable file reports \<open>changed = false\<close> and writes nothing, whereas \<open>removePrefix\<close> on
  a readable and writable file reports \<open>changed = true\<close> and writes the file: with
  the same bytes when the flag is not set (the files of the world stay as they were),
  and without one leading line break, if there is one, when it is set. So a reported
  change does not mean that the content differs. The command line cannot get there:
  options that \<open>parseOpts\<close> accepts have a non-empty prefix.
\<close>

theorem empty_prefix:
  "(store w (target w p) = Some f \<and> readable f \<longrightarrow>
      injectPrefix w p [] lineEnd = (w\<lparr>trace := trace w @ [ReadEv p]\<rparr>, False, None))
   \<and> (store w (target w p) = Some f \<and> readable f \<and> writable f \<longrightarrow>
        removePrefix w p [] False = (w\<lparr>trace := trace w @ [ReadEv p, WriteEv p (data f)]\<rparr>, True, None)
        \<and> removePrefix w p [] True =
            (let newStr = (if data f \<noteq> [] \<and> hd (data f) = LF then tl (data f) else data f)
             in (w\<lparr>trace := trace w @ [ReadEv p, WriteEv p newStr],
                   store := (store w)(target w p \<mapsto> f\<lparr>data := newStr\<rparr>)\<rparr>, True, None)))
   \<and> (parseOpts w flags args = (w', Inr options) \<longrightarrow> prefix options \<noteq> [])"
proof (intro conjI impI)
  assume "store w (target w p) = Some f \<and> readable f"
  then show "injectPrefix w p [] lineEnd = (w\<lparr>trace := trace w @ [ReadEv p]\<rparr>, False, None)"
    by (simp add: injectPrefix_def ReadFile_def)
next
  assume a: "store w (target w p) = Some f \<and> readable f \<and> writable f"
  then have "(store w)(target w p \<mapsto> f) = store w" by (simp add: map_upd_triv)
  with a show "removePrefix w p [] False
      = (w\<lparr>trace := trace w @ [ReadEv p, WriteEv p (data f)]\<rparr>, True, None)"
    by (simp add: removePrefix_def ReadFile_def WriteFile_def Let_def)
next
  assume a: "store w (target w p) = Some f \<and> readable f \<and> writable f"
  have "TrimPrefix (data f) [LF]
      = (if data f \<noteq> [] \<and> hd (data f) = LF then tl (data f) else data f)"
    by (cases "data f") (simp_all add: TrimPrefix_LF)
  with a show "removePrefix w p [] True =
            (let newStr = (if data f \<noteq> [] \<and> hd (data f) = LF then tl (data f) else data f)
             in (w\<lparr>trace := trace w @ [ReadEv p, WriteEv p newStr],
                   store := (store w)(target w p \<mapsto> f\<lparr>data := newStr\<rparr>)\<rparr>, True, None))"
    by (simp add: removePrefix_def ReadFile_def WriteFile_def Let_def)
next
  assume "parseOpts w flags args = (w', Inr options)"
  then show "prefix options \<noteq> []"
    by (auto simp: parseOpts_def Let_def split: if_splits prod.splits sum.splits)
qed

theorem empty_prefix_witness:
  "injectPrefix (one_file ''f'' ''hello'') ''f'' [] True
     = ((one_file ''f'' ''hello'')\<lparr>trace := [ReadEv ''f'']\<rparr>, False, None)
   \<and> removePrefix (one_file ''f'' ''hello'') ''f'' [] False
     = ((one_file ''f'' ''hello'')\<lparr>trace := [ReadEv ''f'', WriteEv ''f'' ''hello'']\<rparr>, True, None)
   \<and> removePrefix (one_file ''f'' (LF # ''hello'')) ''f'' [] True
     = ((one_file ''f'' ''hello'')\<lparr>trace := [ReadEv ''f'', WriteEv ''f'' ''hello'']\<rparr>, True, None)
   \<and> prefix \<lparr>rootPath = ''r'', prefix = ''P'', pattern = ''*'', withLineEnd = False\<rparr> \<noteq> []"
proof -
  have p: "parseOpts (one_file ''f'' ''hello'') (optsFlags\<lparr>flag_prefix := ''P''\<rparr>) [''r'']
      = (one_file ''f'' ''hello'',
         Inr \<lparr>rootPath = ''r'', prefix = ''P'', pattern = ''*'', withLineEnd = False\<rparr>)"
    by (simp add: parseOpts_def optsFlags_def)
  show ?thesis
    using empty_prefix [where w = "one_file ''f'' ''hello''" and p = "''f''"
        and f = "\<lparr>data = ''hello'', readable = True, writable = True\<rparr>" and lineEnd = True
        and flags = "optsFlags\<lparr>flag_prefix := ''P''\<rparr>" and args = "[''r'']"
        and w' = "one_file ''f'' ''hello''"
        and options = "\<lparr>rootPath = ''r'', prefix = ''P'', pattern = ''*'', withLineEnd = False\<rparr>"]
      empty_prefix [where w = "one_file ''f'' (LF # ''hello'')" and p = "''f''"
        and f = "\<lparr>data = LF # ''hello'', readable = True, writable = True\<rparr>" and lineEnd = True
        and flags = "optsFlags\<lparr>flag_prefix := ''P''\<rparr>" and args = "[''r'']"
        and w' = "one_file ''f'' ''hello''"
        and options = "\<lparr>rootPath = ''r'', prefix = ''P'', pattern = ''*'', withLineEnd = False\<rparr>"]
      p
    by (simp add: one_file_def Let_def)
qed

section \<open>Properties of the commands\<close>

text \<open>
  Claim C6 (a failed traversal aborts before any mutation). When \<open>walkMatch\<close> fails,
  \<open>injectCmd\<close> and \<open>removeCmd\<close> return the wrapped error; the world they leave differs
  from the one they found only by the two lines \<open>injectCmd\<close> prints first: no file is
  read or written (the log is as it was) and no file has changed. And \<open>walkMatch\<close>
  does fail when \<open>Lstat\<close> of the root fails (the root does not exist) or the root
  directory cannot be listed.
\<close>

theorem traversal_failure_aborts:
  "(walkMatch (tree w) (rootPath options) (pattern options) = Inl e \<longrightarrow>
      injectCmd w options =
        (w\<lparr>out := out w @ [''Prefix '' @ '' '' @ prefix options,
                             ''Pattern '' @ '' '' @ pattern options]\<rparr>,
         Some (Wrap e ''error walking root path''))
      \<and> removeCmd w options = (w, Some (Wrap e ''error walking root path'')))
   \<and> (tree w (rootPath options) = NoStat (rootPath options) e
        \<or> tree w (rootPath options) = BadDir (rootPath options) e \<longrightarrow>
      walkMatch (tree w) (rootPath options) (pattern options) = Inl e)"
proof (intro conjI impI)
  assume a: "walkMatch (tree w) (rootPath options) (pattern options) = Inl e"
  then show "injectCmd w options =
        (w\<lparr>out := out w @ [''Prefix '' @ '' '' @ prefix options,
                             ''Pattern '' @ '' '' @ pattern options]\<rparr>,
         Some (Wrap e ''error walking root path''))"
    by (simp add: injectCmd_def getFilePaths_def Println_def)
  from a show "removeCmd w options = (w, Some (Wrap e ''error walking root path''))"
    by (simp add: removeCmd_def getFilePaths_def)
next
  assume "tree w (rootPath options) = NoStat (rootPath options) e
        \<or> tree w (rootPath options) = BadDir (rootPath options) e"
  then show "walkMatch (tree w) (rootPath options) (pattern options) = Inl e"
    by (auto simp: walkMatch_def walkMatch_fn_def)
qed

theorem traversal_failure_aborts_witness:
  "injectCmd (one_file ''f'' ''x'')
      \<lparr>rootPath = ''nowhere'', prefix = ''P'', pattern = ''*'', withLineEnd = False\<rparr>
     = ((one_file ''f'' ''x'')\<lparr>out := [''Prefix  P'', ''Pattern  *'']\<rparr>,
        Some (Wrap (PathError ''lstat'' ''nowhere'' ''no such file or directory'')
                ''error walking root path''))
   \<and> removeCmd (one_file ''f'' ''x'')
      \<lparr>rootPath = ''nowhere'', prefix = ''P'', pattern = ''*'', withLineEnd = False\<rparr>
     = (one_file ''f'' ''x'',
        Some (Wrap (PathError ''lstat'' ''nowhere'' ''no such file or directory'')
                ''error walking root path''))"
  using traversal_failure_aborts [where w = "one_file ''f'' ''x''"
      and options = "\<lparr>rootPath = ''nowhere'', prefix = ''P'', pattern = ''*'', withLineEnd = False\<rparr>"
      and e = "PathError ''lstat'' ''nowhere'' ''no such file or directory''"]
  by (simp add: one_file_def)



text \<open>
  Claim C9 (where the prefix comes from). With a root path given: a non-empty
  \<open>--prefix\<close> is the prefix, whatever \<open>--prefix-file\<close> says, and no file is read; with
  an empty \<open>--prefix\<close>, the prefix is the whole content of a readable, non-empty prefix
  file, byte for byte. With an empty \<open>--prefix\<close>, \<open>parseOpts\<close> fails when no prefix file
  is named, when the file is missing or unreadable, and when it is empty. Whenever
  \<open>parseOpts\<close> fails, both commands return its error at once: no file has changed,
  nothing is printed, and the only file that may have been read is the prefix file.
\<close>

theorem prefix_source_resolution:
  "(args \<noteq> [] \<and> hd args \<noteq> [] \<and> flag_prefix flags \<noteq> [] \<longrightarrow>
      parseOpts w flags args =
        (w, Inr \<lparr>rootPath = hd args, prefix = flag_prefix flags, pattern = flag_pattern flags,
                 withLineEnd = flag_with_line_end flags\<rparr>))
   \<and> (args \<noteq> [] \<and> hd args \<noteq> [] \<and> flag_prefix flags = [] \<and> flag_prefix_file flags \<noteq> []
        \<and> store w (target w (flag_prefix_file flags)) = Some f \<and> readable f \<and> data f \<noteq> [] \<longrightarrow>
      parseOpts w flags args =
        (w\<lparr>trace := trace w @ [ReadEv (flag_prefix_file flags)]\<rparr>,
         Inr \<lparr>rootPath = hd args, prefix = data f, pattern = flag_pattern flags,
               withLineEnd = flag_with_line_end flags\<rparr>))
   \<and> (flag_prefix flags = []
        \<and> (flag_prefix_file flags = []
            \<or> store w (target w (flag_prefix_file flags)) = None
            \<or> (\<exists>g. store w (target w (flag_prefix_file flags)) = Some g \<and> (\<not> readable g \<or> data g = []))) \<longrightarrow>
      (\<exists>w' err. parseOpts w flags args = (w', Inl err)))
   \<and> (parseOpts w flags args = (w', Inl err) \<longrightarrow>
      injectCommand_RunE w flags args = (w', Some err)
      \<and> removeCommand_RunE w flags args = (w', Some err)
      \<and> store w' = store w \<and> out w' = out w
      \<and> (trace w' = trace w \<or> trace w' = trace w @ [ReadEv (flag_prefix_file flags)]))"
proof (intro conjI impI)
  assume "args \<noteq> [] \<and> hd args \<noteq> [] \<and> flag_prefix flags \<noteq> []"
  then show "parseOpts w flags args =
        (w, Inr \<lparr>rootPath = hd args, prefix = flag_prefix flags, pattern = flag_pattern flags,
                 withLineEnd = flag_with_line_end flags\<rparr>)"
    by (cases args) (simp_all add: parseOpts_def)
next
  assume "args \<noteq> [] \<and> hd args \<noteq> [] \<and> flag_prefix flags = [] \<and> flag_prefix_file flags \<noteq> []
        \<and> store w (target w (flag_prefix_file flags)) = Some f \<and> readable f \<and> data f \<noteq> []"
  then show "parseOpts w flags args =
        (w\<lparr>trace := trace w @ [ReadEv (flag_prefix_file flags)]\<rparr>,
         Inr \<lparr>rootPath = hd args, prefix = data f, pattern = flag_pattern flags,
               withLineEnd = flag_with_line_end flags\<rparr>)"
    by (cases args) (simp_all add: parseOpts_def loadFile_def ReadFile_def)
next
  assume "flag_prefix flags = []
        \<and> (flag_prefix_file flags = []
            \<or> store w (target w (flag_prefix_file flags)) = None
            \<or> (\<exists>g. store w (target w (flag_prefix_file flags)) = Some g \<and> (\<not> readable g \<or> data g = [])))"
  then show "\<exists>w' err. parseOpts w flags args = (w', Inl err)"
    by (cases args)
       (auto simp: parseOpts_def loadFile_def ReadFile_def Let_def)
next
  assume a: "parseOpts w flags args = (w', Inl err)"
  then show "injectCommand_RunE w flags args = (w', Some err)"
    by (simp add: injectCommand_RunE_def)
  from a show "removeCommand_RunE w flags args = (w', Some err)"
    by (simp add: removeCommand_RunE_def)
  from a show "store w' = store w"
    by (auto simp: parseOpts_def loadFile_def ReadFile_def Let_def
          split: if_splits option.splits)
  from a show "out w' = out w"
    by (auto simp: parseOpts_def loadFile_def ReadFile_def Let_def
          split: if_splits option.splits)
  from a show "trace w' = trace w \<or> trace w' = trace w @ [ReadEv (flag_prefix_file flags)]"
    by (auto simp: parseOpts_def loadFile_def ReadFile_def Let_def
          split: if_splits option.splits)
qed

theorem prefix_source_resolution_witness:
  "parseOpts (one_file ''pf'' (''hello'' @ [LF]))
      (optsFlags\<lparr>flag_prefix := ''P'', flag_prefix_file := ''pf''\<rparr>) [''root'']
     = (one_file ''pf'' (''hello'' @ [LF]),
        Inr \<lparr>rootPath = ''root'', prefix = ''P'', pattern = ''*'', withLineEnd = False\<rparr>)
   \<and> parseOpts (one_file ''pf'' (''hello'' @ [LF])) (optsFlags\<lparr>flag_prefix_file := ''pf''\<rparr>) [''root'']
     = ((one_file ''pf'' (''hello'' @ [LF]))\<lparr>trace := [ReadEv ''pf'']\<rparr>,
        Inr \<lparr>rootPath = ''root'', prefix = ''hello'' @ [LF], pattern = ''*'', withLineEnd = False\<rparr>)
   \<and> injectCommand_RunE (one_file ''pf'' []) (optsFlags\<lparr>flag_prefix_file := ''pf''\<rparr>) [''root'']
     = ((one_file ''pf'' [])\<lparr>trace := [ReadEv ''pf'']\<rparr>,
        Some (Errorf ''prefix not provided, specify --prefix or --prefix-file''))"
proof -
  let ?w = "one_file ''pf'' (''hello'' @ [LF])"
  let ?f = "\<lparr>data = ''hello'' @ [LF], readable = True, writable = True\<rparr>"
  let ?empty = "one_file ''pf'' []"
  let ?after = "(one_file ''pf'' [])\<lparr>trace := [ReadEv ''pf'']\<rparr>"
  let ?e = "Errorf ''prefix not provided, specify --prefix or --prefix-file''"
  have p: "parseOpts ?empty (optsFlags\<lparr>flag_prefix_file := ''pf''\<rparr>) [''root''] = (?after, Inl ?e)"
    by (simp add: parseOpts_def loadFile_def ReadFile_def optsFlags_def one_file_def)
  note t1 = prefix_source_resolution [where w = ?w
        and flags = "optsFlags\<lparr>flag_prefix := ''P'', flag_prefix_file := ''pf''\<rparr>"
        and args = "[''root'']" and f = ?f and w' = ?w and err = ?e, THEN conjunct1]
  have a: "parseOpts ?w (optsFlags\<lparr>flag_prefix := ''P'', flag_prefix_file := ''pf''\<rparr>) [''root'']
     = (?w, Inr \<lparr>rootPath = ''root'', prefix = ''P'', pattern = ''*'', withLineEnd = False\<rparr>)"
    using t1 by (simp add: optsFlags_def)
  note t2 = prefix_source_resolution [where w = ?w
        and flags = "optsFlags\<lparr>flag_prefix_file := ''pf''\<rparr>"
        and args = "[''root'']" and f = ?f and w' = ?w and err = ?e,
        THEN conjunct2, THEN conjunct1]
  have b: "parseOpts ?w (optsFlags\<lparr>flag_prefix_file := ''pf''\<rparr>) [''root'']
     = (?w\<lparr>trace := [ReadEv ''pf'']\<rparr>,
        Inr \<lparr>rootPath = ''root'', prefix = ''hello'' @ [LF], pattern = ''*'', withLineEnd = False\<rparr>)"
    using t2 by (simp add: optsFlags_def one_file_def)
  note t4 = prefix_source_resolution [where w = ?empty
        and flags = "optsFlags\<lparr>flag_prefix_file := ''pf''\<rparr>"
        and args = "[''root'']" and f = ?f and w' = ?after and err = ?e,
        THEN conjunct2, THEN conjunct2, THEN conjunct2, THEN mp, OF p]
  have c: "injectCommand_RunE ?empty (optsFlags\<lparr>flag_prefix_file := ''pf''\<rparr>) [''root'']
      = (?after, Some ?e)"
    using t4 by (rule conjunct1)
  from a b c show ?thesis by (intro conjI)
qed

section \<open>Literal chunks and the pattern \<open>*.txt\<close>\<close>

lemma HasPrefix_Cons:
  "HasPrefix s (c # cs) \<longleftrightarrow> (s \<noteq> [] \<and> hd s = c \<and> HasPrefix (tl s) cs)"
  by (cases s) (auto simp: HasPrefix_def)

lemma matchChunk_loop_plain:
  assumes "c \<noteq> CHR ''[''" "c \<noteq> CHR ''?''" "c \<noteq> backslash"
  shows "matchChunk_loop (c # cs) s failed =
           (if failed \<or> s = [] then matchChunk_loop cs s True
            else matchChunk_loop cs (tl s) (c \<noteq> hd s))"
  using assms by (simp add: Let_def)

lemma matchChunk_loop_literal:
  "\<forall>c\<in>set chunk. c \<noteq> CHR ''['' \<and> c \<noteq> CHR ''?'' \<and> c \<noteq> backslash \<Longrightarrow>
   matchChunk_loop chunk s failed =
     (if \<not> failed \<and> HasPrefix s chunk then Inr (Some (drop (length chunk) s)) else Inr None)"
proof (induction chunk arbitrary: s failed)
  case Nil
  show ?case by (simp add: HasPrefix_def)
next
  case (Cons c cs)
  then have plain: "c \<noteq> CHR ''[''" "c \<noteq> CHR ''?''" "c \<noteq> backslash"
    and rest: "\<forall>c\<in>set cs. c \<noteq> CHR ''['' \<and> c \<noteq> CHR ''?'' \<and> c \<noteq> backslash"
    by simp_all
  note step = matchChunk_loop_plain [OF plain, of cs s failed]
  show ?case
  proof (cases "failed \<or> s = []")
    case True
    then have "matchChunk_loop (c # cs) s failed = Inr None"
      unfolding step using Cons.IH [OF rest, of s True] by simp
    moreover have "\<not> (\<not> failed \<and> HasPrefix s (c # cs))"
      using True by (auto simp: HasPrefix_Cons)
    ultimately show ?thesis by simp
  next
    case False
    then obtain x xs where s: "s = x # xs" by (cases s) auto
    have "matchChunk_loop (c # cs) s failed = matchChunk_loop cs xs (c \<noteq> x)"
      unfolding step using False s by simp
    also have "\<dots> = (if c = x \<and> HasPrefix xs cs then Inr (Some (drop (length cs) xs)) else Inr None)"
      using Cons.IH [OF rest, of xs "c \<noteq> x"] by simp
    also have "\<dots> = (if \<not> failed \<and> HasPrefix s (c # cs)
                     then Inr (Some (drop (length (c # cs)) s)) else Inr None)"
      using False s by (auto simp: HasPrefix_Cons)
    finally show ?thesis .
  qed
qed

lemma matchChunk_literal:
  "\<forall>c\<in>set chunk. c \<noteq> CHR ''['' \<and> c \<noteq> CHR ''?'' \<and> c \<noteq> backslash \<Longrightarrow>
   matchChunk chunk s = (if HasPrefix s chunk then Inr (Some (drop (length chunk) s)) else Inr None)"
  by (simp add: matchChunk_def matchChunk_loop_literal)

lemma HasPrefix_drop_Nil:
  assumes "HasPrefix s chunk" and "drop (length chunk) s = []"
  shows "s = chunk"
proof -
  from assms(2) have "length s \<le> length chunk" by simp
  then have t1: "take (length chunk) s = s" by simp
  from assms(1) have t2: "take (length chunk) s = chunk" unfolding HasPrefix_def by (rule conjunct2)
  show ?thesis using trans [OF t1 [symmetric] t2] .
qed

lemma starLoop_literal_last:
  assumes "\<forall>c\<in>set chunk. c \<noteq> CHR ''['' \<and> c \<noteq> CHR ''?'' \<and> c \<noteq> backslash"
  shows "starLoop chunk True name = Inr (Some t) \<longleftrightarrow>
           t = [] \<and> (\<exists>pre. name = pre @ chunk \<and> pre \<noteq> [] \<and> CHR ''/'' \<notin> set pre)"
proof (induction name)
  case Nil
  show ?case by simp
next
  case (Cons c cs)
  note mc = matchChunk_literal [OF assms, of cs]
  show ?case
  proof (cases "c = CHR ''/''")
    case True
    have "\<not> (\<exists>pre. c # cs = pre @ chunk \<and> pre \<noteq> [] \<and> CHR ''/'' \<notin> set pre)"
    proof
      assume "\<exists>pre. c # cs = pre @ chunk \<and> pre \<noteq> [] \<and> CHR ''/'' \<notin> set pre"
      then obtain pre where p: "c # cs = pre @ chunk" "pre \<noteq> []" "CHR ''/'' \<notin> set pre"
        by (elim exE conjE)
      then obtain pre' where "pre = c # pre'" by (cases pre) auto
      with p(3) True show False by simp
    qed
    moreover have "starLoop chunk True (c # cs) = Inr None" using True by simp
    ultimately show ?thesis by simp
  next
    case False
    show ?thesis
    proof (cases "HasPrefix cs chunk \<and> drop (length chunk) cs = []")
      case True
      then have eq: "cs = chunk" using HasPrefix_drop_Nil by simp
      have star: "starLoop chunk True (c # cs) = Inr (Some [])"
        using False True by (simp add: mc)
      have "c # cs = [c] @ chunk \<and> [c] \<noteq> [] \<and> CHR ''/'' \<notin> set [c]"
        using eq False by simp
      then have ex: "\<exists>pre. c # cs = pre @ chunk \<and> pre \<noteq> [] \<and> CHR ''/'' \<notin> set pre"
        by (rule exI [of _ "[c]"])
      show ?thesis unfolding star using ex by auto
    next
      case nomatch: False
      have step: "starLoop chunk True (c # cs) = starLoop chunk True cs"
        using False nomatch by (auto simp add: mc)
      have "(\<exists>pre. c # cs = pre @ chunk \<and> pre \<noteq> [] \<and> CHR ''/'' \<notin> set pre)
          \<longleftrightarrow> (\<exists>pre. cs = pre @ chunk \<and> pre \<noteq> [] \<and> CHR ''/'' \<notin> set pre)"
      proof
        assume "\<exists>pre. c # cs = pre @ chunk \<and> pre \<noteq> [] \<and> CHR ''/'' \<notin> set pre"
        then obtain pre where p: "c # cs = pre @ chunk" "pre \<noteq> []" "CHR ''/'' \<notin> set pre"
          by (elim exE conjE)
        then obtain pre' where pre: "pre = c # pre'" by (cases pre) auto
        with p have cs: "cs = pre' @ chunk" by simp
        have "pre' \<noteq> []"
        proof
          assume "pre' = []"
          with cs have "cs = chunk" by simp
          with nomatch show False by (simp add: HasPrefix_def)
        qed
        with cs p(3) pre have "cs = pre' @ chunk \<and> pre' \<noteq> [] \<and> CHR ''/'' \<notin> set pre'"
          by simp
        then show "\<exists>pre. cs = pre @ chunk \<and> pre \<noteq> [] \<and> CHR ''/'' \<notin> set pre"
          by (rule exI [of _ pre'])
      next
        assume "\<exists>pre. cs = pre @ chunk \<and> pre \<noteq> [] \<and> CHR ''/'' \<notin> set pre"
        then obtain pre where p: "cs = pre @ chunk" "pre \<noteq> []" "CHR ''/'' \<notin> set pre"
          by (elim exE conjE)
        then have "c # cs = (c # pre) @ chunk \<and> c # pre \<noteq> [] \<and> CHR ''/'' \<notin> set (c # pre)"
          using False by simp
        then show "\<exists>pre. c # cs = pre @ chunk \<and> pre \<noteq> [] \<and> CHR ''/'' \<notin> set pre"
          by (rule exI [of _ "c # pre"])
      qed
      with step Cons.IH show ?thesis by simp
    qed
  qed
qed

lemma scanChunk_star_txt: "scanChunk ''*.txt'' = (True, ''.txt'', [])"
  by (simp add: scanChunk_def backslash_def)

lemma Match_Nil: "Match [] name = (name = [], None)"
  by (simp add: Match.simps)

lemma Match_star_txt:
  "Match ''*.txt'' name = (\<exists>pre. name = pre @ ''.txt'' \<and> CHR ''/'' \<notin> set pre, None)"
proof -
  have lit: "\<forall>c\<in>set ''.txt''. c \<noteq> CHR ''['' \<and> c \<noteq> CHR ''?'' \<and> c \<noteq> backslash"
    by (simp add: backslash_def)
  note mc = matchChunk_literal [OF lit]
  note sl = starLoop_literal_last [OF lit]
  show ?thesis
  proof (cases "HasPrefix name ''.txt'' \<and> drop (length ''.txt'') name = []")
    case True
    then have eq: "name = ''.txt''" using HasPrefix_drop_Nil [of name "''.txt''"] by simp
    have "Match ''*.txt'' name = (True, None)"
      unfolding Match.simps [of "''*.txt''" name] scanChunk_star_txt
      using True by (simp add: mc Match_Nil)
    moreover have "name = [] @ ''.txt'' \<and> CHR ''/'' \<notin> set []" using eq by simp
    then have "\<exists>pre. name = pre @ ''.txt'' \<and> CHR ''/'' \<notin> set pre" by (rule exI [of _ "[]"])
    ultimately show ?thesis by simp
  next
    case False
    have m: "Match ''*.txt'' name =
        (case starLoop ''.txt'' True name of
           Inl err \<Rightarrow> (False, Some err)
         | Inr None \<Rightarrow> (False, None)
         | Inr (Some t) \<Rightarrow> (t = [], None))"
      unfolding Match.simps [of "''*.txt''" name] scanChunk_star_txt
      using False by (auto simp add: mc Match_Nil split: sum.splits option.splits)
    have noerr: "starLoop ''.txt'' True name \<noteq> Inl e" for e
      by (induction name) (auto simp: mc split: if_splits)
    have ne: "name \<noteq> ''.txt''" using False by (auto simp: HasPrefix_def)
    have "(\<exists>pre. name = pre @ ''.txt'' \<and> CHR ''/'' \<notin> set pre)
        \<longleftrightarrow> (\<exists>pre. name = pre @ ''.txt'' \<and> pre \<noteq> [] \<and> CHR ''/'' \<notin> set pre)"
      using ne by auto
    then show ?thesis
      unfolding m using sl [of name] noerr
      by (cases "starLoop ''.txt'' True name") (auto split: option.splits)
  qed
qed


section \<open>Properties of the file selector\<close>

lemma Walk_walkMatch_fn:
  "fn = walkMatch_fn pat \<Longrightarrow> Walk n fn acc = (acc', None) \<Longrightarrow>
     acc' = acc @ filter (\<lambda>p. Match pat (Base p) = (True, None)) (leaves n)"
  "fn = walkMatch_fn pat \<Longrightarrow> Walk_entries ns fn acc = (acc', None) \<Longrightarrow>
     acc' = acc @ filter (\<lambda>p. Match pat (Base p) = (True, None)) (concat (map leaves ns))"
proof (induction n fn acc and ns fn acc arbitrary: acc' and acc' rule: Walk_Walk_entries.induct)
  case (1 p fn s)
  then show ?case
    by (cases "Match pat (Base p)") (auto simp: walkMatch_fn_def split: option.splits if_splits)
next
  case (2 p ns fn s)
  have "fn p (Some (FileInfo True)) None s = (s, None)"
    using "2.prems"(1) by (simp add: walkMatch_fn_def)
  with 2 show ?case by simp
next
  case (3 p e fn s)
  then show ?case by (simp add: walkMatch_fn_def)
next
  case (4 p e fn s)
  then show ?case by (simp add: walkMatch_fn_def)
next
  case (5 fn s)
  then show ?case by simp
next
  case (6 n ns fn s)
  obtain s1 where w1: "Walk n fn s = (s1, None)"
    using "6.prems"(2) by (cases "Walk n fn s") (auto split: option.splits)
  then have w2: "Walk_entries ns fn s1 = (acc', None)"
    using "6.prems"(2) by simp
  have "s1 = s @ filter (\<lambda>p. Match pat (Base p) = (True, None)) (leaves n)"
    using "6.IH"(1) [OF "6.prems"(1) w1] .
  moreover have "acc' = s1 @ filter (\<lambda>p. Match pat (Base p) = (True, None)) (concat (map leaves ns))"
    using "6.IH"(2) [OF w1 [symmetric] refl "6.prems"(1) w2] .
  ultimately show ?case by simp
qed

lemma walkMatch_selects:
  "walkMatch tr root pat = Inr files \<Longrightarrow>
   files = filter (\<lambda>p. Match pat (Base p) = (True, None)) (leaves (tr root))"
proof -
  assume a: "walkMatch tr root pat = Inr files"
  then have "Walk (tr root) (walkMatch_fn pat) [] = (files, None)"
    by (cases "Walk (tr root) (walkMatch_fn pat) []")
       (auto simp: walkMatch_def split: option.splits)
  from Walk_walkMatch_fn(1) [OF refl this] show ?thesis by simp
qed

lemma injectCmd_loop_store_other:
  "k \<notin> target w ` set files \<Longrightarrow> store (injectCmd_loop w options files) k = store w k"
proof (induction files arbitrary: w)
  case Nil
  show ?case by simp
next
  case (Cons f files)
  obtain w3 where eq: "injectCmd_loop w options (f # files) = injectCmd_loop w3 options files"
    and st: "store w3 = store (fst (injectPrefix w f (prefix options) (withLineEnd options)))"
    and tg: "target w3 = target w"
    using injectCmd_loop_step [of w options f files] by blast
  from Cons.prems have "target w f \<noteq> k" "k \<notin> target w3 ` set files" by (auto simp: tg)
  then have "store (injectCmd_loop w3 options files) k = store w3 k" "store w3 k = store w k"
    using Cons.IH [of w3] st injectPrefix_other [of w f k] by simp_all
  then show ?case unfolding eq by simp
qed

lemma removeCmd_loop_store_other:
  "k \<notin> target w ` set files \<Longrightarrow> store (removeCmd_loop w options files) k = store w k"
proof (induction files arbitrary: w)
  case Nil
  show ?case by simp
next
  case (Cons f files)
  obtain w3 where eq: "removeCmd_loop w options (f # files) = removeCmd_loop w3 options files"
    and st: "store w3 = store (fst (removePrefix w f (prefix options) (withLineEnd options)))"
    and tg: "target w3 = target w"
    using removeCmd_loop_step [of w options f files] by blast
  from Cons.prems have "target w f \<noteq> k" "k \<notin> target w3 ` set files" by (auto simp: tg)
  then have "store (removeCmd_loop w3 options files) k = store w3 k" "store w3 k = store w k"
    using Cons.IH [of w3] st removePrefix_other [of w f k] by simp_all
  then show ?case unfolding eq by simp
qed

lemma commands_store_other:
  assumes "\<forall>q. q \<in> set (leaves (tree w (rootPath options)))
              \<and> Match (pattern options) (Base q) = (True, None) \<longrightarrow> target w q \<noteq> k"
  shows "store (fst (injectCmd w options)) k = store w k"
    and "store (fst (removeCmd w options)) k = store w k"
proof -
  show "store (fst (injectCmd w options)) k = store w k"
  proof (cases "walkMatch (tree w) (rootPath options) (pattern options)")
    case (Inl e)
    then show ?thesis by (simp add: injectCmd_def getFilePaths_def)
  next
    case (Inr files)
    then obtain w6 where i: "injectCmd w options
          = (Println (Println (injectCmd_loop w6 options files) []) ''Injection finished'', None)"
      and i6: "store w6 = store w" "target w6 = target w"
      using injectCmd_ok by blast
    have "k \<notin> target w6 ` set files"
      unfolding walkMatch_selects [OF Inr] i6 using assms by auto
    then show ?thesis by (simp add: i injectCmd_loop_store_other i6)
  qed
  show "store (fst (removeCmd w options)) k = store w k"
  proof (cases "walkMatch (tree w) (rootPath options) (pattern options)")
    case (Inl e)
    then show ?thesis by (simp add: removeCmd_def getFilePaths_def)
  next
    case (Inr files)
    then obtain w4 where r: "removeCmd w options
          = (Println (Println (removeCmd_loop w4 options files) []) ''Removal finished'', None)"
      and r4: "store w4 = store w" "target w4 = target w"
      using removeCmd_ok by blast
    have "k \<notin> target w4 ` set files"
      unfolding walkMatch_selects [OF Inr] r4 using assms by auto
    then show ?thesis by (simp add: r removeCmd_loop_store_other r4)
  qed
qed

lemma Match_star_txt_suffix:
  "Match ''*.txt'' name = (True, None) \<Longrightarrow> HasSuffix name ''.txt''"
  by (auto simp: Match_star_txt HasSuffix_def)

text \<open>
  Claim C8 (file selection) does not hold in its second half. In the directory of
  \<open>linked_tree\<close> the pattern \<open>*.txt\<close> selects only the symbolic link \<open>d/link.txt\<close>, an
  entry that is not a directory and whose base name ends in \<open>.txt\<close>. \<open>injectPrefix\<close>
  reads and writes through the link, so the file \<open>d/c.json\<close>, whose base name does
  not end in \<open>.txt\<close>, is rewritten from \<open>z\<close> to \<open>Pz\<close>.
\<close>

theorem file_selection_counterexample:
  "walkMatch (tree linked_tree) ''d'' ''*.txt'' = Inr [''d/link.txt'']
   \<and> \<not> HasSuffix (Base ''d/c.json'') ''.txt''
   \<and> target linked_tree ''d/c.json'' = ''d/c.json''
   \<and> map_option data (store linked_tree ''d/c.json'') = Some ''z''
   \<and> map_option data (store (fst (injectCmd linked_tree
          \<lparr>rootPath = ''d'', prefix = ''P'', pattern = ''*.txt'', withLineEnd = False\<rparr>))
        ''d/c.json'') = Some ''Pz''"
  by code_simp

text \<open>
  Claim C8 as amended. When \<open>walkMatch\<close> returns a list, the list is the
  non-directory entries of the tree below the root (the root itself when it is a
  file; a symbolic link under its own name), in the order of the walk, whose base
  name \<^verbatim>\<open>filepath.Match\<close> accepts for the pattern: a path is returned if and only if
  it is such an entry. The match is on the base name alone, and \<open>*\<close> never matches a
  separator; the pattern \<open>*.txt\<close> matches exactly the names that end in \<open>.txt\<close> with no
  separator before it. \<open>injectCmd\<close> and \<open>removeCmd\<close> change only files that a selected
  entry names: a file \<open>k\<close> that no selected entry names, directly or through a link,
  is left as it was, whether the walk succeeds or not. So with the pattern \<open>*.txt\<close> a
  file keeps its bytes unless an entry whose base name ends in \<open>.txt\<close> names it; and
  where no path is a link, every file whose own base name does not end in \<open>.txt\<close>
  keeps its bytes.
\<close>

theorem file_selection:
  "(walkMatch tr root pat = Inr files \<longrightarrow>
      files = filter (\<lambda>q. Match pat (Base q) = (True, None)) (leaves (tr root))
      \<and> (\<forall>q. q \<in> set files \<longleftrightarrow>
               q \<in> set (leaves (tr root)) \<and> Match pat (Base q) = (True, None)))
   \<and> ((\<forall>q. q \<in> set (leaves (tree w (rootPath options)))
             \<and> Match (pattern options) (Base q) = (True, None) \<longrightarrow> target w q \<noteq> k) \<longrightarrow>
        store (fst (injectCmd w options)) k = store w k
        \<and> store (fst (removeCmd w options)) k = store w k)
   \<and> Match ''*.txt'' name = (\<exists>pre. name = pre @ ''.txt'' \<and> CHR ''/'' \<notin> set pre, None)
   \<and> (pattern options = ''*.txt''
        \<and> (\<forall>q. q \<in> set (leaves (tree w (rootPath options)))
               \<and> HasSuffix (Base q) ''.txt'' \<longrightarrow> target w q \<noteq> k) \<longrightarrow>
        store (fst (injectCmd w options)) k = store w k
        \<and> store (fst (removeCmd w options)) k = store w k)
   \<and> (pattern options = ''*.txt'' \<and> (\<forall>q. target w q = q) \<and> \<not> HasSuffix (Base p) ''.txt'' \<longrightarrow>
        store (fst (injectCmd w options)) p = store w p
        \<and> store (fst (removeCmd w options)) p = store w p)"
proof (intro conjI impI allI)
  assume a: "walkMatch tr root pat = Inr files"
  show "files = filter (\<lambda>q. Match pat (Base q) = (True, None)) (leaves (tr root))"
    using a by (rule walkMatch_selects)
  show "q \<in> set files \<longleftrightarrow> q \<in> set (leaves (tr root)) \<and> Match pat (Base q) = (True, None)" for q
    unfolding walkMatch_selects [OF a] by simp
next
  assume "\<forall>q. q \<in> set (leaves (tree w (rootPath options)))
             \<and> Match (pattern options) (Base q) = (True, None) \<longrightarrow> target w q \<noteq> k"
  then show "store (fst (injectCmd w options)) k = store w k"
    and "store (fst (removeCmd w options)) k = store w k"
    by (rule commands_store_other)+
next
  show "Match ''*.txt'' name = (\<exists>pre. name = pre @ ''.txt'' \<and> CHR ''/'' \<notin> set pre, None)"
    by (rule Match_star_txt)
next
  assume "pattern options = ''*.txt''
        \<and> (\<forall>q. q \<in> set (leaves (tree w (rootPath options)))
               \<and> HasSuffix (Base q) ''.txt'' \<longrightarrow> target w q \<noteq> k)"
  then have "\<forall>q. q \<in> set (leaves (tree w (rootPath options)))
             \<and> Match (pattern options) (Base q) = (True, None) \<longrightarrow> target w q \<noteq> k"
    using Match_star_txt_suffix by auto
  then show "store (fst (injectCmd w options)) k = store w k"
    and "store (fst (removeCmd w options)) k = store w k"
    by (rule commands_store_other)+
next
  assume b: "pattern options = ''*.txt'' \<and> (\<forall>q. target w q = q) \<and> \<not> HasSuffix (Base p) ''.txt''"
  have "\<forall>q. q \<in> set (leaves (tree w (rootPath options)))
             \<and> Match (pattern options) (Base q) = (True, None) \<longrightarrow> target w q \<noteq> p"
  proof (intro allI impI)
    fix q
    assume "q \<in> set (leaves (tree w (rootPath options)))
             \<and> Match (pattern options) (Base q) = (True, None)"
    then have "HasSuffix (Base q) ''.txt''" using b Match_star_txt_suffix by simp
    with b have "q \<noteq> p" by auto
    with b show "target w q \<noteq> p" by simp
  qed
  then show "store (fst (injectCmd w options)) p = store w p"
    and "store (fst (removeCmd w options)) p = store w p"
    by (rule commands_store_other)+
qed

lemma small_tree_injected:
  "map_option data (store (fst (injectCmd small_tree
      \<lparr>rootPath = ''d'', prefix = ''P'', pattern = ''*.txt'', withLineEnd = False\<rparr>)) ''d/b.txt'')
     = Some ''Px''"
  by code_simp

theorem file_selection_witness:
  "walkMatch (tree small_tree) ''d'' ''*.txt'' = Inr [''d/a.txt'', ''d/b.txt'']
   \<and> [''d/a.txt'', ''d/b.txt'']
       = filter (\<lambda>q. Match ''*.txt'' (Base q) = (True, None)) (leaves (tree small_tree ''d''))
   \<and> store (fst (injectCmd small_tree
        \<lparr>rootPath = ''d'', prefix = ''P'', pattern = ''*.txt'', withLineEnd = False\<rparr>)) ''d/c.json''
       = Some \<lparr>data = ''z'', readable = True, writable = True\<rparr>
   \<and> map_option data (store (fst (injectCmd small_tree
        \<lparr>rootPath = ''d'', prefix = ''P'', pattern = ''*.txt'', withLineEnd = False\<rparr>)) ''d/b.txt'')
       = Some ''Px''"
proof -
  let ?o = "\<lparr>rootPath = ''d'', prefix = ''P'', pattern = ''*.txt'', withLineEnd = False\<rparr>"
  note t = file_selection [where tr = "tree small_tree" and root = "''d''" and pat = "''*.txt''"
      and files = "[''d/a.txt'', ''d/b.txt'']" and options = ?o and k = "''d/c.json''"
      and p = "''d/c.json''" and w = small_tree and name = "''c.json''"]
  have 1: "[''d/a.txt'', ''d/b.txt'']
       = filter (\<lambda>q. Match ''*.txt'' (Base q) = (True, None)) (leaves (tree small_tree ''d''))"
    using t [THEN conjunct1, THEN mp, OF small_tree_walk] by (rule conjunct1)
  have h: "pattern ?o = ''*.txt''
        \<and> (\<forall>q. q \<in> set (leaves (tree small_tree (rootPath ?o)))
               \<and> HasSuffix (Base q) ''.txt'' \<longrightarrow> target small_tree q \<noteq> ''d/c.json'')"
    by (auto simp: small_tree_def Base_def HasSuffix_def)
  have "store (fst (injectCmd small_tree ?o)) ''d/c.json'' = store small_tree ''d/c.json''"
    using t [THEN conjunct2, THEN conjunct2, THEN conjunct2, THEN conjunct1, THEN mp, OF h]
    by (rule conjunct1)
  moreover have "store small_tree ''d/c.json''
      = Some \<lparr>data = ''z'', readable = True, writable = True\<rparr>"
    by (simp add: small_tree_def)
  ultimately have 2: "store (fst (injectCmd small_tree ?o)) ''d/c.json''
      = Some \<lparr>data = ''z'', readable = True, writable = True\<rparr>"
    by (rule trans)
  from small_tree_walk 1 2 small_tree_injected show ?thesis by (intro conjI)
qed

end
